theory Spec2Isabelle
  imports Complex_Main "HOL-Library.Log_Nat" "HOL-Library.Multiset"
begin

section \<open>Data model of the expense tracker (src/App.js)\<close>

text \<open>
  The application keeps its whole state in React state cells of the single component
  \<open>App\<close>. Every handler reads the cells of the current render and calls their setters;
  the model passes the cells as one record and returns the record after the handler.
  A handler that shows an alert and returns early is the \<open>Inl\<close> branch of its result:
  no setter has run, the state stays what it was.

  The functions are those of \<open>src/App.js\<close>. The repository's second copy of the
  component is an earlier state of it, without the grouped view, without category
  deletion and without the duplicate check of \<open>handleAddNewCategory\<close>.
\<close>

text \<open>The form's type switcher only ever stores \<open>'Income'\<close> or \<open>'Expense'\<close>.\<close>

datatype txn_type = Income | Expense

text \<open>
  A JavaScript number: a finite double (kept as the rational it denotes), the two
  infinities, or NaN. The two zeros are identified, as \<open>===\<close> does.
\<close>

datatype jsnum = Fin rat | PInf | NInf | NaN

text \<open>
  A \<open>Date\<close>, seen through its local-time accessors in the device's time zone: year,
  month (from 0), day of the month, and the time within the day in milliseconds (hours,
  minutes, seconds and milliseconds in one number). The stored \<open>dateISO\<close> string is
  \<open>toISOString()\<close> of such a date and is only ever read back through
  \<open>new Date(dateISO)\<close>, which restores the same instant; the model stores the date.
\<close>

record jsdate =
  getFullYear :: int
  getMonth :: nat
  getDate :: int
  timeWithinDay :: int

record transaction =
  tid :: string
  dateISO :: jsdate
  displayDate :: string
  ttype :: txn_type
  amount :: jsnum
  category :: string
  tnote :: string

text \<open>The cell \<open>newTransaction\<close>: the form of the add-transaction modal.\<close>

record form =
  form_type :: txn_type
  form_amount :: string
  form_category :: string
  form_note :: string

record app_state =
  transactions :: "transaction list"
  categories :: "txn_type \<Rightarrow> string list"
  modalVisible :: bool
  newTransaction :: form
  newCategoryName :: string
  isAddingCategory :: bool
  currentDate :: jsdate
  deleteModalVisible :: bool
  categoryToDelete :: "(string \<times> txn_type) option"
  reassignCategory :: string

datatype alert = Missing_Info | Category_Exists | Select_Reassign_Target

text \<open>The state once a handler has run: untouched when it returned early.\<close>

definition after :: "app_state \<Rightarrow> alert + app_state \<Rightarrow> app_state" where
  "after st r = (case r of Inl _ \<Rightarrow> st | Inr st' \<Rightarrow> st')"

section \<open>Category deletion\<close>

text \<open>The predicate both branches of \<open>executeCategoryDeletion\<close> test on a transaction.\<close>

definition depends_on :: "string \<Rightarrow> txn_type \<Rightarrow> transaction \<Rightarrow> bool" where
  "depends_on categoryName type t \<longleftrightarrow> category t = categoryName \<and> ttype t = type"

text \<open>The test of \<open>handleDeleteCategoryInitiation\<close>: is there a dependent transaction.\<close>

definition hasTransactions :: "string \<Rightarrow> txn_type \<Rightarrow> app_state \<Rightarrow> bool" where
  "hasTransactions categoryName type st =
     list_ex (depends_on categoryName type) (transactions st)"

text \<open>
  The first part of \<open>executeCategoryDeletion\<close>: the new ledger, or the alert of the
  reassign branch when no target is selected. An action other than the two strings
  leaves the copy of the ledger as it is.
\<close>

definition updatedTransactions ::
  "string \<Rightarrow> txn_type \<Rightarrow> string \<Rightarrow> app_state \<Rightarrow> alert + transaction list" where
  "updatedTransactions categoryName type action st =
     (if action = ''delete'' then
        Inr (filter (\<lambda>t. \<not> depends_on categoryName type t) (transactions st))
      else if action = ''reassign'' then
        (if reassignCategory st = [] then Inl Select_Reassign_Target
         else Inr (map (\<lambda>t. if depends_on categoryName type t
                             then t\<lparr>category := reassignCategory st\<rparr> else t)
                       (transactions st)))
      else Inr (transactions st))"

definition executeCategoryDeletion ::
  "string \<Rightarrow> txn_type \<Rightarrow> string \<Rightarrow> app_state \<Rightarrow> alert + app_state" where
  "executeCategoryDeletion categoryName type action st =
     (case updatedTransactions categoryName type action st of
        Inl a \<Rightarrow> Inl a
      | Inr ts \<Rightarrow>
          Inr (st\<lparr>transactions := ts,
                  categories := (categories st)
                    (type := filter (\<lambda>c. c \<noteq> categoryName) (categories st type)),
                  newTransaction :=
                    (if form_category (newTransaction st) = categoryName
                     then (newTransaction st)\<lparr>form_category := []\<rparr>
                     else newTransaction st),
                  deleteModalVisible := False,
                  categoryToDelete := None,
                  reassignCategory := []\<rparr>))"

section \<open>Strings\<close>

text \<open>
  Strings are lists of code units below 256. \<open>String.prototype.trim\<close> drops the white
  space and line terminators at both ends: tab, line feed, vertical tab, form feed,
  carriage return, space and the no-break space are the ones in this range.
\<close>

definition isWhiteSpace :: "char \<Rightarrow> bool" where
  "isWhiteSpace c \<longleftrightarrow> (of_char c :: nat) \<in> {9, 10, 11, 12, 13, 32, 160}"

definition trim :: "string \<Rightarrow> string" where
  "trim s = rev (dropWhile isWhiteSpace (rev (dropWhile isWhiteSpace s)))"

definition isDigit :: "char \<Rightarrow> bool" where
  "isDigit c \<longleftrightarrow> 48 \<le> (of_char c :: nat) \<and> (of_char c :: nat) \<le> 57"

definition digitValue :: "char \<Rightarrow> nat" where
  "digitValue c = of_char c - 48"

definition digitsValue :: "string \<Rightarrow> nat" where
  "digitsValue ds = foldl (\<lambda>a c. 10 * a + digitValue c) 0 ds"

text \<open>
  \<open>Number.prototype.toString\<close> on an integer (below \<open>10^21\<close> in magnitude, as every
  clock reading is): its decimal digits, with a minus sign when negative.
\<close>

fun digitsOf :: "nat \<Rightarrow> string" where
  "digitsOf n =
     (if n < 10 then [''0123456789'' ! n]
      else digitsOf (n div 10) @ [''0123456789'' ! (n mod 10)])"

definition toString :: "int \<Rightarrow> string" where
  "toString i = (if i < 0 then CHR ''-'' # digitsOf (nat (- i)) else digitsOf (nat i))"

section \<open>Numbers\<close>

text \<open>
  Arithmetic on doubles is the exact operation followed by rounding to the nearest
  double, ties to the even significand (IEEE 754 binary64): 53 significant bits, the
  least exponent of a unit in the last place \<open>-1074\<close>, overflow to an infinity from
  \<open>2^1024\<close> on. \<open>binade x\<close> is the integer part of the binary logarithm of a positive
  rational, \<open>roundMagnitude\<close> rounds a positive rational to 53 bits.
\<close>

definition pow2 :: "int \<Rightarrow> rat" where
  "pow2 e = (if 0 \<le> e then 2 ^ nat e else 1 / 2 ^ nat (- e))"

definition binade :: "rat \<Rightarrow> int" where
  "binade x = (if 1 \<le> x then bitlen \<lfloor>x\<rfloor> - 1 else - bitlen (\<lceil>1 / x\<rceil> - 1))"

definition roundHalfEven :: "rat \<Rightarrow> int" where
  "roundHalfEven x =
     (let f = \<lfloor>x\<rfloor>; r = x - of_int f
      in if r < 1 / 2 then f else if 1 / 2 < r then f + 1 else if even f then f else f + 1)"

definition roundMagnitude :: "rat \<Rightarrow> rat" where
  "roundMagnitude a =
     (let e = max (binade a - 52) (- 1074)
      in of_int (roundHalfEven (a / pow2 e)) * pow2 e)"

definition roundDouble :: "rat \<Rightarrow> jsnum" where
  "roundDouble x =
     (if x = 0 then Fin 0
      else
        let r = roundMagnitude \<bar>x\<bar>
        in if 2 ^ 1024 \<le> r then (if 0 < x then PInf else NInf)
           else Fin (if 0 < x then r else - r))"

fun jsadd :: "jsnum \<Rightarrow> jsnum \<Rightarrow> jsnum" where
  "jsadd (Fin a) (Fin b) = roundDouble (a + b)"
| "jsadd NaN _ = NaN"
| "jsadd _ NaN = NaN"
| "jsadd PInf NInf = NaN"
| "jsadd NInf PInf = NaN"
| "jsadd PInf _ = PInf"
| "jsadd _ PInf = PInf"
| "jsadd NInf _ = NInf"
| "jsadd _ NInf = NInf"

fun jsneg :: "jsnum \<Rightarrow> jsnum" where
  "jsneg (Fin a) = Fin (- a)"
| "jsneg PInf = NInf"
| "jsneg NInf = PInf"
| "jsneg NaN = NaN"

definition jssub :: "jsnum \<Rightarrow> jsnum \<Rightarrow> jsnum" where
  "jssub a b = jsadd a (jsneg b)"

text \<open>
  The comparison \<open>a >= b\<close> of two numbers, and the values a finite double can take:
  the multiples of \<open>2^-1074\<close> (every result of an addition is one of them, or is not
  finite).
\<close>

fun numGe :: "jsnum \<Rightarrow> jsnum \<Rightarrow> bool" where
  "numGe (Fin p) (Fin q) = (q \<le> p)"
| "numGe NaN _ = False"
| "numGe _ NaN = False"
| "numGe PInf _ = True"
| "numGe _ NInf = True"
| "numGe _ _ = False"

definition onGrid :: "rat \<Rightarrow> bool" where
  "onGrid q \<longleftrightarrow> rat_of_int \<lfloor>q * 2 ^ 1074\<rfloor> = q * 2 ^ 1074"

definition representable :: "jsnum \<Rightarrow> bool" where
  "representable v = (case v of Fin q \<Rightarrow> onGrid q | _ \<Rightarrow> True)"

text \<open>
  The global \<open>parseFloat\<close>: leading white space is skipped, then the longest prefix
  that is a decimal literal (optional sign; \<open>Infinity\<close>, or digits with an optional
  fraction, or a fraction alone; an optional exponent) is read and rounded to a double.
  With no such prefix the result is NaN.
\<close>

definition signOf :: "string \<Rightarrow> bool \<times> string" where
  "signOf s =
     (case s of
        [] \<Rightarrow> (False, [])
      | c # r \<Rightarrow> if c = CHR ''-'' then (True, r) else if c = CHR ''+'' then (False, r)
                 else (False, s))"

definition exponentPart :: "string \<Rightarrow> int" where
  "exponentPart s =
     (case s of
        [] \<Rightarrow> 0
      | c # r \<Rightarrow>
          if c = CHR ''e'' \<or> c = CHR ''E'' then
            (let (neg, ds) = signOf r; n = int (digitsValue (takeWhile isDigit ds))
             in if neg then - n else n)
          else 0)"

definition parseFloat :: "string \<Rightarrow> jsnum" where
  "parseFloat s =
     (let (neg, u) = signOf (dropWhile isWhiteSpace s)
      in if take 8 u = ''Infinity'' then (if neg then NInf else PInf)
         else
           let ip = takeWhile isDigit u;
               r1 = dropWhile isDigit u;
               dot = (r1 \<noteq> [] \<and> hd r1 = CHR ''.'');
               fp = (if dot then takeWhile isDigit (tl r1) else []);
               r2 = (if dot then dropWhile isDigit (tl r1) else r1);
               ex = exponentPart r2 - int (length fp);
               mv = rat_of_nat (digitsValue (ip @ fp)) *
                    (if 0 \<le> ex then 10 ^ nat ex else 1 / 10 ^ nat (- ex))
           in if ip = [] \<and> fp = [] then NaN
              else roundDouble (if neg then - mv else mv))"

section \<open>Dates\<close>

text \<open>
  The language's MakeDay and MakeDate on local fields: year, month and a day number
  that need not lie in the month, with a time within the day. A day outside the month
  is carried into the neighbouring months (the day number of the first of the month
  plus the day minus one). Months count from 0.
\<close>

definition isLeapYear :: "int \<Rightarrow> bool" where
  "isLeapYear y \<longleftrightarrow> (y mod 4 = 0 \<and> y mod 100 \<noteq> 0) \<or> y mod 400 = 0"

definition daysInMonth :: "int \<Rightarrow> nat \<Rightarrow> int" where
  "daysInMonth y m =
     (if m = 1 then (if isLeapYear y then 29 else 28)
      else if m = 3 \<or> m = 5 \<or> m = 8 \<or> m = 10 then 30 else 31)"

definition monthBefore :: "int \<Rightarrow> nat \<Rightarrow> int \<times> nat" where
  "monthBefore y m = (if m = 0 then (y - 1, 11) else (y, m - 1))"

definition monthAfter :: "int \<Rightarrow> nat \<Rightarrow> int \<times> nat" where
  "monthAfter y m = (if m = 11 then (y + 1, 0) else (y, m + 1))"

function makeDay :: "int \<Rightarrow> nat \<Rightarrow> int \<Rightarrow> int \<Rightarrow> jsdate" where
  "makeDay y m d time =
     (if d < 1 then
        makeDay (fst (monthBefore y m)) (snd (monthBefore y m))
          (d + daysInMonth (fst (monthBefore y m)) (snd (monthBefore y m))) time
      else if daysInMonth y m < d then
        makeDay (fst (monthAfter y m)) (snd (monthAfter y m)) (d - daysInMonth y m) time
      else \<lparr>getFullYear = y, getMonth = m, getDate = d, timeWithinDay = time\<rparr>)"
  by pat_completeness auto
termination
  by (relation "measure (\<lambda>(y, m, d, time). if d < 1 then nat (32 - d) else nat d)")
    (auto simp: daysInMonth_def)

text \<open>
  The device's time zone. \<open>Date.prototype.setDate\<close> composes a local time from fields,
  converts it to an instant in the zone and stores the instant; the accessors read the
  instant back as local time. For a local time that exists in the zone this gives the
  composed fields back. A local time that the zone skips (its clocks were put forward
  across it) is read with the offset in force before the change, and so comes back
  later by the width of the gap. A zone is given by this round trip: what a composed
  local time reads as once it is stored.
\<close>

type_synonym zone = "jsdate \<Rightarrow> jsdate"

text \<open>
  \<open>Date.prototype.setDate\<close> keeps year, month and time within the day of the date's
  local time and replaces the day of the month.
\<close>

definition setDate :: "zone \<Rightarrow> jsdate \<Rightarrow> int \<Rightarrow> jsdate" where
  "setDate z dt d = z (makeDay (getFullYear dt) (getMonth dt) d (timeWithinDay dt))"

text \<open>
  Two kinds of zone. One skips no local time (UTC for one). The other has no day
  \<open>d\<close> of month \<open>m\<close> of year \<open>y\<close> in its calendar: its clocks went from the end of the
  day before to the start of the day after, the offset rising by 24 hours, as
  Pacific/Apia did over 30 December 2011 and Pacific/Kiritimati over 31 December 1994.
  A time composed on the missing day reads as the same time on the day after.
\<close>

definition utcZone :: zone where
  "utcZone l = l"

definition skippedDay :: "int \<Rightarrow> nat \<Rightarrow> int \<Rightarrow> zone" where
  "skippedDay y m d l =
     (if getFullYear l = y \<and> getMonth l = m \<and> getDate l = d
      then makeDay y m (d + 1) (timeWithinDay l) else l)"

text \<open>
  What every \<open>Date\<close> of the program satisfies: a month from 0 to 11, a day in it, a
  time within the day.
\<close>

definition validDate :: "jsdate \<Rightarrow> bool" where
  "validDate d \<longleftrightarrow>
     getMonth d < 12 \<and> 1 \<le> getDate d \<and>
     getDate d \<le> daysInMonth (getFullYear d) (getMonth d) \<and>
     0 \<le> timeWithinDay d \<and> timeWithinDay d < 86400000"

definition isSameMonth :: "jsdate \<Rightarrow> jsdate \<Rightarrow> bool" where
  "isSameMonth date1 date2 \<longleftrightarrow>
     getMonth date1 = getMonth date2 \<and> getFullYear date1 = getFullYear date2"

text \<open>\<open>toLocaleDateString\<close> depends on the device's locale; this is the en-US one.\<close>

definition toLocaleDateString_enUS :: "jsdate \<Rightarrow> string" where
  "toLocaleDateString_enUS d =
     toString (int (getMonth d) + 1) @ ''/'' @ toString (getDate d) @ ''/'' @
     toString (getFullYear d)"

section \<open>The month view\<close>

definition getFilteredTransactions :: "app_state \<Rightarrow> transaction list" where
  "getFilteredTransactions st =
     filter (\<lambda>t. isSameMonth (dateISO t) (currentDate st)) (transactions st)"

record totals =
  income :: jsnum
  expense :: jsnum
  balance :: jsnum

text \<open>\<open>Number(curr.amount)\<close> is the amount itself: the ledger stores numbers.\<close>

definition sumAmounts :: "transaction list \<Rightarrow> jsnum" where
  "sumAmounts ts = foldl (\<lambda>acc curr. jsadd acc (amount curr)) (Fin 0) ts"

definition getTotals :: "app_state \<Rightarrow> totals" where
  "getTotals st =
     (let income = sumAmounts (filter (\<lambda>t. ttype t = Income) (getFilteredTransactions st));
          expense = sumAmounts (filter (\<lambda>t. ttype t = Expense) (getFilteredTransactions st))
      in \<lparr>income = income, expense = expense, balance = jssub income expense\<rparr>)"

record group =
  key :: string
  gcategory :: string
  gtype :: txn_type
  total :: jsnum
  gtransactions :: "transaction list"

definition typeName :: "txn_type \<Rightarrow> string" where
  "typeName ty = (case ty of Income \<Rightarrow> ''Income'' | Expense \<Rightarrow> ''Expense'')"

definition groupKey :: "transaction \<Rightarrow> string" where
  "groupKey t = typeName (ttype t) @ ''-'' @ category t"

text \<open>
  The object \<open>groups\<close> is a list of its properties in creation order, which is the
  order \<open>Object.values\<close> lists them in (no key is an array index: each starts with a
  type name). One round of the \<open>forEach\<close>: create the group when the key is new, then
  push the transaction and add its amount.
\<close>

definition addToGroups :: "(string \<times> group) list \<Rightarrow> transaction \<Rightarrow> (string \<times> group) list" where
  "addToGroups groups t =
     (let k = groupKey t;
          groups1 =
            (if map_of groups k = None
             then groups @ [(k, \<lparr>key = k, gcategory = category t, gtype = ttype t,
                                  total = Fin 0, gtransactions = []\<rparr>)]
             else groups)
      in map (\<lambda>(k', g). if k' = k
                          then (k', g\<lparr>total := jsadd (total g) (amount t),
                                      gtransactions := gtransactions g @ [t]\<rparr>)
                          else (k', g)) groups1)"

text \<open>The comparison function given to \<open>sort\<close>.\<close>

definition compareGroups :: "group \<Rightarrow> group \<Rightarrow> jsnum" where
  "compareGroups a b =
     (if gtype a \<noteq> gtype b then (if gtype a = Income then Fin (- 1) else Fin 1)
      else jssub (total b) (total a))"

definition buildGroups :: "transaction list \<Rightarrow> (string \<times> group) list" where
  "buildGroups ts = foldl addToGroups [] ts"

text \<open>
  \<open>Array.prototype.sort\<close> is the engine's. The language fixes that the result holds
  the elements the array held. When the comparison function is consistent on them,
  for which it must never return NaN, the language also fixes that they come in an
  order the function agrees with: no element stands ahead of one that the function puts
  first. With a comparison function that is not consistent the order is left to the
  engine. The grouped view takes the engine's sort as an argument.
\<close>

type_synonym sorter = "(group \<Rightarrow> group \<Rightarrow> jsnum) \<Rightarrow> group list \<Rightarrow> group list"

definition getGroupedTransactions :: "sorter \<Rightarrow> app_state \<Rightarrow> group list" where
  "getGroupedTransactions srt st =
     srt compareGroups (map snd (buildGroups (getFilteredTransactions st)))"

definition isPositive :: "jsnum \<Rightarrow> bool" where
  "isPositive v = (case v of Fin q \<Rightarrow> 0 < q | PInf \<Rightarrow> True | _ \<Rightarrow> False)"

definition permutes :: "sorter \<Rightarrow> bool" where
  "permutes srt \<longleftrightarrow> (\<forall>cmp xs. mset (srt cmp xs) = mset xs)"

definition agreesWith :: "(group \<Rightarrow> group \<Rightarrow> jsnum) \<Rightarrow> group list \<Rightarrow> bool" where
  "agreesWith cmp gs \<longleftrightarrow> sorted_wrt (\<lambda>a b. \<not> isPositive (cmp a b)) gs"

text \<open>
  One sort, for the examples: stable insertion. A positive result of the comparison
  function puts the second argument first; any other result, NaN too, leaves the first
  in front.
\<close>

fun insertSorted :: "('a \<Rightarrow> 'a \<Rightarrow> jsnum) \<Rightarrow> 'a \<Rightarrow> 'a list \<Rightarrow> 'a list" where
  "insertSorted cmp x [] = [x]"
| "insertSorted cmp x (y # ys) =
     (if isPositive (cmp x y) then y # insertSorted cmp x ys else x # y # ys)"

definition sortBy :: "('a \<Rightarrow> 'a \<Rightarrow> jsnum) \<Rightarrow> 'a list \<Rightarrow> 'a list" where
  "sortBy cmp xs = foldr (insertSorted cmp) xs []"

text \<open>
  The two sides of the relation between the grouped view and the totals: the group
  totals added up in the order of the view, and income plus expense.
\<close>

definition sumGroupTotals :: "group list \<Rightarrow> jsnum" where
  "sumGroupTotals gs = foldl (\<lambda>acc g. jsadd acc (total g)) (Fin 0) gs"

definition incomePlusExpense :: "totals \<Rightarrow> jsnum" where
  "incomePlusExpense t = jsadd (income t) (expense t)"

text \<open>
  An addition that does not round: the two numbers are finite and the double it
  returns is their exact sum. \<open>exactSum acc vs\<close>: adding the numbers \<open>vs\<close> to \<open>acc\<close> one
  after the other, as \<open>reduce\<close> and \<open>+=\<close> do, no addition rounds.
\<close>

definition valueOf :: "jsnum \<Rightarrow> rat" where
  "valueOf v = (case v of Fin q \<Rightarrow> q | _ \<Rightarrow> 0)"

definition exactAdd :: "jsnum \<Rightarrow> jsnum \<Rightarrow> bool" where
  "exactAdd a b \<longleftrightarrow>
     (case (a, b) of (Fin p, Fin q) \<Rightarrow> jsadd a b = Fin (p + q) | _ \<Rightarrow> False)"

fun exactSum :: "jsnum \<Rightarrow> jsnum list \<Rightarrow> bool" where
  "exactSum acc [] = True"
| "exactSum acc (v # vs) = (exactAdd acc v \<and> exactSum (jsadd acc v) vs)"

text \<open>
  The additions behind the two sides of the relation: those that make the total of
  each group of the view, those that add the group totals up in the order of the
  view, those that make the income and the expense total, and income plus expense.
\<close>

definition noRounding :: "sorter \<Rightarrow> app_state \<Rightarrow> bool" where
  "noRounding srt st \<longleftrightarrow>
     list_all (\<lambda>g. exactSum (Fin 0) (map amount (gtransactions g)))
       (getGroupedTransactions srt st) \<and>
     exactSum (Fin 0) (map total (getGroupedTransactions srt st)) \<and>
     exactSum (Fin 0)
       (map amount (filter (\<lambda>t. ttype t = Income) (getFilteredTransactions st))) \<and>
     exactSum (Fin 0)
       (map amount (filter (\<lambda>t. ttype t = Expense) (getFilteredTransactions st))) \<and>
     exactAdd (income (getTotals st)) (expense (getTotals st))"

section \<open>Adding a transaction\<close>

text \<open>
  \<open>handleAddTransaction\<close> reads the clock twice: \<open>new Date()\<close> for the day of the month
  (\<open>now\<close>, a date) and \<open>Date.now()\<close> for the id (\<open>dateNow\<close>, milliseconds). Both are
  arguments of the model, as are the device's time zone and the locale's
  \<open>toLocaleDateString\<close>.
\<close>

text \<open>The form as \<open>useState\<close> starts it and as a successful add resets it.\<close>

definition emptyForm :: form where
  "emptyForm = \<lparr>form_type = Expense, form_amount = [], form_category = [], form_note = []\<rparr>"

definition transactionDate :: "zone \<Rightarrow> jsdate \<Rightarrow> jsdate \<Rightarrow> jsdate" where
  "transactionDate z cur now =
     (let d = setDate z cur (getDate now)
      in if getMonth d \<noteq> getMonth cur then setDate z d 0 else d)"

definition handleAddTransaction ::
  "zone \<Rightarrow> (jsdate \<Rightarrow> string) \<Rightarrow> jsdate \<Rightarrow> int \<Rightarrow> app_state \<Rightarrow> alert + app_state" where
  "handleAddTransaction z toLocaleDateString now dateNow st =
     (if form_amount (newTransaction st) = [] \<or> form_category (newTransaction st) = []
      then Inl Missing_Info
      else
        let d = transactionDate z (currentDate st) now;
            t = \<lparr>tid = toString dateNow,
                 dateISO = d,
                 displayDate = toLocaleDateString d,
                 ttype = form_type (newTransaction st),
                 amount = parseFloat (form_amount (newTransaction st)),
                 category = form_category (newTransaction st),
                 tnote = form_note (newTransaction st)\<rparr>
        in Inr (st\<lparr>transactions := t # transactions st,
                   modalVisible := False,
                   newTransaction := emptyForm,
                   newCategoryName := [],
                   isAddingCategory := False\<rparr>))"

section \<open>Adding a category\<close>

text \<open>
  \<open>handleAddNewCategory\<close> returns without an alert when the trimmed name is empty, and
  with the alert when the list of the form's type already includes it.
\<close>

definition handleAddNewCategory :: "app_state \<Rightarrow> alert + app_state" where
  "handleAddNewCategory st =
     (let name = trim (newCategoryName st); ty = form_type (newTransaction st)
      in if name = [] then Inr st
         else if name \<in> set (categories st ty) then Inl Category_Exists
         else Inr (st\<lparr>categories := (categories st)(ty := categories st ty @ [name]),
                      newTransaction := (newTransaction st)\<lparr>form_category := name\<rparr>,
                      newCategoryName := [],
                      isAddingCategory := False\<rparr>))"

section \<open>Example states\<close>

text \<open>The seed registry of the \<open>categories\<close> cell.\<close>

definition defaultCategories :: "txn_type \<Rightarrow> string list" where
  "defaultCategories ty =
     (case ty of
        Income \<Rightarrow> [''Salary'', ''Gift'', ''Freelance'']
      | Expense \<Rightarrow> [''Food'', ''Transport'', ''Shopping'', ''Bills''])"

text \<open>A ledger entry dated 15 March 2025, for the examples below.\<close>

definition entry :: "string \<Rightarrow> txn_type \<Rightarrow> rat \<Rightarrow> string \<Rightarrow> transaction" where
  "entry i ty a c =
     \<lparr>tid = i,
      dateISO = \<lparr>getFullYear = 2025, getMonth = 2, getDate = 15, timeWithinDay = 0\<rparr>,
      displayDate = ''3/15/2025'', ttype = ty, amount = Fin a, category = c, tnote = []\<rparr>"

text \<open>
  Four entries, two of them Expense/Food, one Income entry whose category is also
  called Food; the reassign target Bills is selected in the deletion modal.
\<close>

definition demo :: app_state where
  "demo =
     \<lparr>transactions =
        [entry ''4'' Expense 12 ''Food'', entry ''3'' Income 1000 ''Salary'',
         entry ''2'' Income 5 ''Food'', entry ''1'' Expense 50 ''Food''],
      categories = defaultCategories(Income := defaultCategories Income @ [''Food'']),
      modalVisible = True,
      newTransaction = emptyForm\<lparr>form_category := ''Food''\<rparr>,
      newCategoryName = [],
      isAddingCategory = False,
      currentDate = \<lparr>getFullYear = 2025, getMonth = 2, getDate = 1, timeWithinDay = 0\<rparr>,
      deleteModalVisible = True,
      categoryToDelete = Some (''Food'', Expense),
      reassignCategory = ''Bills''\<rparr>"

text \<open>The add form filled in with an amount and a category, on a given ledger.\<close>

definition filled :: "string \<Rightarrow> string \<Rightarrow> jsdate \<Rightarrow> transaction list \<Rightarrow> app_state" where
  "filled a c cur ts =
     demo\<lparr>transactions := ts,
          newTransaction := \<lparr>form_type = Expense, form_amount = a, form_category = c,
                              form_note = ''lunch''\<rparr>,
          currentDate := cur\<rparr>"

text \<open>The state \<open>demo\<close> with another ledger; the reference month stays March 2025.\<close>

definition ledgerOf :: "transaction list \<Rightarrow> app_state" where
  "ledgerOf ts = demo\<lparr>transactions := ts\<rparr>"

text \<open>An entry whose amount is what \<open>parseFloat\<close> reads from an amount input.\<close>

definition typed :: "string \<Rightarrow> txn_type \<Rightarrow> string \<Rightarrow> string \<Rightarrow> transaction" where
  "typed i ty a c = (entry i ty 0 c)\<lparr>amount := parseFloat a\<rparr>"

text \<open>
  Three Expense entries, the newest first; the amount of the second was typed as a
  single dot.
\<close>

definition nanLedger :: app_state where
  "nanLedger =
     ledgerOf [entry ''3'' Expense 1 ''Food'', typed ''2'' Expense ''.'' ''Bills'',
               entry ''1'' Expense 2 ''Transport'']"

text \<open>Amounts with cents: 12.50 and 0.25 for Food, and a salary of 1000.\<close>

definition centsLedger :: app_state where
  "centsLedger =
     ledgerOf [typed ''3'' Expense ''12.50'' ''Food'', entry ''2'' Income 1000 ''Salary'',
               typed ''1'' Expense ''0.25'' ''Food'']"

section \<open>Facts about strings\<close>

declare digitsOf.simps [simp del]
declare makeDay.simps [simp del]

lemma digit_char_value: "d < 10 \<Longrightarrow> digitValue (''0123456789'' ! d) = d"
proof -
  assume "d < 10"
  then have "d \<in> {0,1,2,3,4,5,6,7,8,9}" by auto
  then show ?thesis by (auto simp: digitValue_def)
qed

lemma digit_char_isDigit: "d < 10 \<Longrightarrow> isDigit (''0123456789'' ! d)"
proof -
  assume "d < 10"
  then have "d \<in> {0,1,2,3,4,5,6,7,8,9}" by auto
  then show ?thesis by (auto simp: isDigit_def)
qed

lemma digitsValue_snoc: "digitsValue (ds @ [c]) = 10 * digitsValue ds + digitValue c"
  by (simp add: digitsValue_def)

lemma digitsValue_digitsOf: "digitsValue (digitsOf n) = n"
proof (induction n rule: digitsOf.induct)
  case (1 n)
  show ?case
  proof (cases "n < 10")
    case True
    then show ?thesis
      by (subst digitsOf.simps) (simp add: digitsValue_def digit_char_value)
  next
    case False
    then have "digitsValue (digitsOf (n div 10)) = n div 10"
      using "1" by simp
    with False show ?thesis
      by (subst digitsOf.simps) (simp add: digitsValue_snoc digit_char_value)
  qed
qed

lemma digitsOf_all_digits: "list_all isDigit (digitsOf n)"
proof (induction n rule: digitsOf.induct)
  case (1 n)
  show ?case
  proof (cases "n < 10")
    case True
    then show ?thesis
      by (subst digitsOf.simps) (simp add: digit_char_isDigit)
  next
    case False
    with "1" show ?thesis
      by (subst digitsOf.simps) (simp add: digit_char_isDigit)
  qed
qed

lemma digitsOf_nonempty: "digitsOf n \<noteq> []"
  by (subst digitsOf.simps) simp

lemma digitsOf_no_minus: "digitsOf n \<noteq> CHR ''-'' # ds"
proof
  assume eq: "digitsOf n = CHR ''-'' # ds"
  have "list_all isDigit (digitsOf n)" by (rule digitsOf_all_digits)
  then have "isDigit CHR ''-''" by (simp add: eq)
  then show False by (simp add: isDigit_def)
qed

lemma toString_inj: "toString a = toString b \<Longrightarrow> a = b"
proof -
  assume eq: "toString a = toString b"
  have nat_inj: "digitsOf m = digitsOf n \<Longrightarrow> m = n" for m n
    by (metis digitsValue_digitsOf)
  consider "a < 0" "b < 0" | "a < 0" "0 \<le> b" | "0 \<le> a" "b < 0" | "0 \<le> a" "0 \<le> b"
    by linarith
  then show ?thesis
  proof cases
    case 1
    with eq have "nat (- a) = nat (- b)" by (simp add: toString_def nat_inj)
    with 1 show ?thesis by simp
  next
    case 2
    with eq show ?thesis using digitsOf_no_minus [of "nat b" "digitsOf (nat (- a))"]
      by (simp add: toString_def)
  next
    case 3
    with eq show ?thesis using digitsOf_no_minus [of "nat a" "digitsOf (nat (- b))"]
      by (simp add: toString_def)
  next
    case 4
    with eq have "nat a = nat b" by (simp add: toString_def nat_inj)
    with 4 show ?thesis by simp
  qed
qed

section \<open>Facts about category deletion\<close>

lemma filter_none_matching:
  "\<not> list_ex P xs \<Longrightarrow> filter (\<lambda>t. \<not> P t) xs = xs"
  by (induction xs) auto

lemma map_none_matching:
  "\<not> list_ex P xs \<Longrightarrow> map (\<lambda>t. if P t then f t else t) xs = xs"
  by (induction xs) auto

lemma length_filter_split:
  "length (filter (\<lambda>t. \<not> P t) xs) + length (filter P xs) = length xs"
  by (induction xs) auto

lemma other_type_filter:
  "filter (\<lambda>t. ttype t \<noteq> ty) (filter (\<lambda>t. \<not> depends_on c ty t) xs) =
   filter (\<lambda>t. ttype t \<noteq> ty) xs"
  by (induction xs) (auto simp: depends_on_def)

lemma other_type_map:
  "filter (\<lambda>t. ttype t \<noteq> ty)
     (map (\<lambda>t. if depends_on c ty t then t\<lparr>category := g\<rparr> else t) xs) =
   filter (\<lambda>t. ttype t \<noteq> ty) xs"
  by (induction xs) (auto simp: depends_on_def)

text \<open>
  C1. Deleting category \<open>c\<close> of type \<open>ty\<close> in mode \<open>delete\<close> succeeds; the new
  ledger is the old one without the transactions of type \<open>ty\<close> and category \<open>c\<close> (so
  it is shorter by their number and every other transaction stays, in order), and \<open>c\<close>
  is filtered out of the list of \<open>ty\<close>. In mode \<open>reassign\<close> with a selected target the
  ledger keeps its length: it is the old ledger with the category of each of those
  transactions replaced by the target and every other transaction the same record;
  \<open>c\<close> leaves the list of \<open>ty\<close>. When no transaction has type \<open>ty\<close> and category \<open>c\<close>,
  both modes leave the ledger as it was.
\<close>

theorem category_deletion_modes:
  fixes c :: string and ty :: txn_type and st :: app_state
  defines "deps \<equiv> filter (depends_on c ty) (transactions st)"
  shows
    "(\<exists>st'. executeCategoryDeletion c ty ''delete'' st = Inr st' \<and>
        transactions st' = filter (\<lambda>t. \<not> depends_on c ty t) (transactions st) \<and>
        length (transactions st') + length deps = length (transactions st) \<and>
        categories st' ty = filter (\<lambda>x. x \<noteq> c) (categories st ty) \<and>
        c \<notin> set (categories st' ty) \<and>
        (\<not> hasTransactions c ty st \<longrightarrow> transactions st' = transactions st)) \<and>
     (reassignCategory st \<noteq> [] \<longrightarrow>
      (\<exists>st'. executeCategoryDeletion c ty ''reassign'' st = Inr st' \<and>
        length (transactions st') = length (transactions st) \<and>
        transactions st' =
          map (\<lambda>t. if depends_on c ty t then t\<lparr>category := reassignCategory st\<rparr> else t)
            (transactions st) \<and>
        categories st' ty = filter (\<lambda>x. x \<noteq> c) (categories st ty) \<and>
        c \<notin> set (categories st' ty) \<and>
        (\<not> hasTransactions c ty st \<longrightarrow> transactions st' = transactions st)))"
proof (intro conjI impI)
  have none: "\<not> hasTransactions c ty st \<Longrightarrow> \<not> list_ex (depends_on c ty) (transactions st)"
    by (simp add: hasTransactions_def)
  show "\<exists>st'. executeCategoryDeletion c ty ''delete'' st = Inr st' \<and>
        transactions st' = filter (\<lambda>t. \<not> depends_on c ty t) (transactions st) \<and>
        length (transactions st') + length deps = length (transactions st) \<and>
        categories st' ty = filter (\<lambda>x. x \<noteq> c) (categories st ty) \<and>
        c \<notin> set (categories st' ty) \<and>
        (\<not> hasTransactions c ty st \<longrightarrow> transactions st' = transactions st)"
    using none
    by (simp add: executeCategoryDeletion_def updatedTransactions_def deps_def
        length_filter_split filter_none_matching)
  assume target: "reassignCategory st \<noteq> []"
  show "\<exists>st'. executeCategoryDeletion c ty ''reassign'' st = Inr st' \<and>
        length (transactions st') = length (transactions st) \<and>
        transactions st' =
          map (\<lambda>t. if depends_on c ty t then t\<lparr>category := reassignCategory st\<rparr> else t)
            (transactions st) \<and>
        categories st' ty = filter (\<lambda>x. x \<noteq> c) (categories st ty) \<and>
        c \<notin> set (categories st' ty) \<and>
        (\<not> hasTransactions c ty st \<longrightarrow> transactions st' = transactions st)"
    using none target
    by (simp add: executeCategoryDeletion_def updatedTransactions_def map_none_matching)
qed

theorem category_deletion_modes_witness:
  "reassignCategory demo \<noteq> [] \<and> \<not> hasTransactions ''Gift'' Income demo \<and>
   map tid (transactions (after demo (executeCategoryDeletion ''Food'' Expense ''delete'' demo)))
     = [''3'', ''2''] \<and>
   map category
     (transactions (after demo (executeCategoryDeletion ''Food'' Expense ''reassign'' demo)))
     = [''Bills'', ''Salary'', ''Food'', ''Bills''] \<and>
   categories (after demo (executeCategoryDeletion ''Food'' Expense ''reassign'' demo)) Expense
     = [''Transport'', ''Shopping'', ''Bills''] \<and>
   transactions (after demo (executeCategoryDeletion ''Gift'' Income ''delete'' demo))
     = transactions demo"
proof -
  have target: "reassignCategory demo \<noteq> []"
    by (simp add: demo_def)
  have ledger: "transactions demo =
     [entry ''4'' Expense 12 ''Food'', entry ''3'' Income 1000 ''Salary'',
      entry ''2'' Income 5 ''Food'', entry ''1'' Expense 50 ''Food'']"
    and registry: "categories demo Expense = [''Food'', ''Transport'', ''Shopping'', ''Bills'']"
    and sel: "reassignCategory demo = ''Bills''"
    by (simp_all add: demo_def defaultCategories_def)
  from category_deletion_modes [of "''Food''" Expense demo]
  obtain d where d: "executeCategoryDeletion ''Food'' Expense ''delete'' demo = Inr d"
    "transactions d = filter (\<lambda>t. \<not> depends_on ''Food'' Expense t) (transactions demo)"
    by blast
  from category_deletion_modes [of "''Food''" Expense demo] target
  obtain r where r: "executeCategoryDeletion ''Food'' Expense ''reassign'' demo = Inr r"
    "transactions r =
       map (\<lambda>t. if depends_on ''Food'' Expense t
                then t\<lparr>category := reassignCategory demo\<rparr> else t) (transactions demo)"
    "categories r Expense = filter (\<lambda>x. x \<noteq> ''Food'') (categories demo Expense)"
    by blast
  from category_deletion_modes [of "''Gift''" Income demo]
  obtain g where g: "executeCategoryDeletion ''Gift'' Income ''delete'' demo = Inr g"
    "\<not> hasTransactions ''Gift'' Income demo \<longrightarrow> transactions g = transactions demo"
    by blast
  have "map tid (transactions d) = [''3'', ''2'']"
    by (simp add: d(2) ledger entry_def depends_on_def)
  moreover have "map category (transactions r) = [''Bills'', ''Salary'', ''Food'', ''Bills'']"
    by (simp add: r(2) ledger sel entry_def depends_on_def)
  moreover have "categories r Expense = [''Transport'', ''Shopping'', ''Bills'']"
    by (simp add: r(3) registry)
  moreover have "transactions g = transactions demo"
    using g(2) by (simp add: hasTransactions_def ledger entry_def depends_on_def)
  moreover have "\<not> hasTransactions ''Gift'' Income demo"
    by (simp add: hasTransactions_def ledger entry_def depends_on_def)
  ultimately show ?thesis
    using target by (simp add: after_def d(1) r(1) g(1))
qed

text \<open>
  C9. In mode \<open>reassign\<close> with no target selected the handler shows its alert and
  returns: no setter runs, so the ledger, the registry and every other cell are as before.
\<close>

theorem reassign_without_target:
  "reassignCategory st = [] \<Longrightarrow>
     executeCategoryDeletion c ty ''reassign'' st = Inl Select_Reassign_Target \<and>
     after st (executeCategoryDeletion c ty ''reassign'' st) = st"
  by (simp add: executeCategoryDeletion_def updatedTransactions_def after_def)

theorem reassign_without_target_witness:
  "reassignCategory (demo\<lparr>reassignCategory := []\<rparr>) = [] \<and>
   executeCategoryDeletion ''Food'' Expense ''reassign'' (demo\<lparr>reassignCategory := []\<rparr>)
     = Inl Select_Reassign_Target \<and>
   transactions
     (after (demo\<lparr>reassignCategory := []\<rparr>)
        (executeCategoryDeletion ''Food'' Expense ''reassign'' (demo\<lparr>reassignCategory := []\<rparr>)))
     = transactions demo"
  using reassign_without_target [of "demo\<lparr>reassignCategory := []\<rparr>" "''Food''" Expense]
  by (simp add: after_def)

text \<open>
  C10. Whatever the mode and whether or not the handler returns early, the transactions
  of the other type are the same records in the same order after the deletion of
  category \<open>c\<close> of type \<open>ty\<close>, also those whose category is \<open>c\<close>; and the registry list
  of the other type is the same list.
\<close>

theorem category_deletion_type_isolated:
  "filter (\<lambda>t. ttype t \<noteq> ty)
     (transactions (after st (executeCategoryDeletion c ty action st))) =
   filter (\<lambda>t. ttype t \<noteq> ty) (transactions st) \<and>
   (\<forall>ty'. ty' \<noteq> ty \<longrightarrow>
      categories (after st (executeCategoryDeletion c ty action st)) ty' = categories st ty')"
  by (simp add: executeCategoryDeletion_def updatedTransactions_def after_def
      other_type_filter other_type_map del: filter_filter)

theorem category_deletion_type_isolated_witness:
  "Income \<noteq> Expense \<and>
   filter (\<lambda>t. ttype t \<noteq> Expense)
     (transactions (after demo (executeCategoryDeletion ''Food'' Expense ''reassign'' demo)))
     = [entry ''3'' Income 1000 ''Salary'', entry ''2'' Income 5 ''Food''] \<and>
   filter (\<lambda>t. ttype t \<noteq> Expense)
     (transactions (after demo (executeCategoryDeletion ''Food'' Expense ''delete'' demo)))
     = [entry ''3'' Income 1000 ''Salary'', entry ''2'' Income 5 ''Food''] \<and>
   categories (after demo (executeCategoryDeletion ''Food'' Expense ''delete'' demo)) Income
     = [''Salary'', ''Gift'', ''Freelance'', ''Food'']"
  using category_deletion_type_isolated [of Expense demo "''Food''" "''reassign''"]
    category_deletion_type_isolated [of Expense demo "''Food''" "''delete''"]
  by (simp add: demo_def entry_def defaultCategories_def)

section \<open>Facts about adding a category\<close>

lemma rev_dropWhile_takeWhile:
  "rev (dropWhile P (rev xs)) @ rev (takeWhile P (rev xs)) = xs"
proof -
  have "rev (takeWhile P (rev xs) @ dropWhile P (rev xs)) = rev (rev xs)"
    by (simp only: takeWhile_dropWhile_id)
  then show ?thesis
    by (simp only: rev_append rev_rev_ident)
qed

lemma list_all_takeWhile: "list_all P (takeWhile P xs)"
  by (induction xs) auto

lemma trim_decomposition:
  "\<exists>l r. s = l @ trim s @ r \<and> list_all isWhiteSpace l \<and> list_all isWhiteSpace r"
proof -
  let ?t = "dropWhile isWhiteSpace s"
  let ?r = "rev (takeWhile isWhiteSpace (rev ?t))"
  have "s = takeWhile isWhiteSpace s @ ?t" by simp
  moreover have "?t = trim s @ ?r"
    unfolding trim_def by (rule rev_dropWhile_takeWhile [symmetric])
  ultimately have "s = takeWhile isWhiteSpace s @ trim s @ ?r" by simp
  moreover have "list_all isWhiteSpace (takeWhile isWhiteSpace s)"
    by (rule list_all_takeWhile)
  moreover have "list_all isWhiteSpace ?r"
    by (simp only: list_all_rev list_all_takeWhile)
  ultimately show ?thesis by blast
qed

lemma trim_ends:
  assumes "trim s \<noteq> []"
  shows "\<not> isWhiteSpace (hd (trim s))" and "\<not> isWhiteSpace (last (trim s))"
proof -
  let ?t = "dropWhile isWhiteSpace s"
  let ?u = "dropWhile isWhiteSpace (rev ?t)"
  have u: "?u \<noteq> []" using assms by (simp add: trim_def)
  have t: "?t \<noteq> []"
  proof
    assume "?t = []"
    with u show False by (metis dropWhile.simps(1) rev.simps(1))
  qed
  have "last (trim s) = hd ?u" using u by (simp add: trim_def last_rev)
  then show "\<not> isWhiteSpace (last (trim s))" using u hd_dropWhile by metis
  have "?t = trim s @ rev (takeWhile isWhiteSpace (rev ?t))"
    unfolding trim_def by (rule rev_dropWhile_takeWhile [symmetric])
  then have "hd ?t = hd (trim s)" using assms by (metis hd_append2)
  then show "\<not> isWhiteSpace (hd (trim s))" using t hd_dropWhile by metis
qed

text \<open>
  C8. The name the handler works with is the input without the white space at its two
  ends. When it is empty or already in the list of the form's type, the registry is
  as before; otherwise it is appended at the end of that list. The list of the other
  type is never changed.
\<close>

theorem add_category:
  fixes st :: app_state
  defines "name \<equiv> trim (newCategoryName st)"
    and "ty \<equiv> form_type (newTransaction st)"
    and "st' \<equiv> after st (handleAddNewCategory st)"
  shows
    "(\<exists>l r. newCategoryName st = l @ name @ r \<and>
        list_all isWhiteSpace l \<and> list_all isWhiteSpace r) \<and>
     (name \<noteq> [] \<longrightarrow> \<not> isWhiteSpace (hd name) \<and> \<not> isWhiteSpace (last name)) \<and>
     (name = [] \<or> name \<in> set (categories st ty) \<longrightarrow> categories st' = categories st) \<and>
     (name \<noteq> [] \<and> name \<notin> set (categories st ty) \<longrightarrow>
        categories st' ty = categories st ty @ [name]) \<and>
     (\<forall>ty'. ty' \<noteq> ty \<longrightarrow> categories st' ty' = categories st ty')"
  unfolding name_def ty_def st'_def
  using trim_decomposition [of "newCategoryName st"] trim_ends [of "newCategoryName st"]
  by (simp add: handleAddNewCategory_def after_def Let_def)

theorem add_category_witness:
  "trim ''  Rent '' = ''Rent'' \<and>
   categories (after (demo\<lparr>newCategoryName := ''  Rent ''\<rparr>)
      (handleAddNewCategory (demo\<lparr>newCategoryName := ''  Rent ''\<rparr>))) Expense
     = [''Food'', ''Transport'', ''Shopping'', ''Bills'', ''Rent''] \<and>
   categories (after (demo\<lparr>newCategoryName := ''  Rent ''\<rparr>)
      (handleAddNewCategory (demo\<lparr>newCategoryName := ''  Rent ''\<rparr>))) Income
     = categories demo Income \<and>
   categories (after (demo\<lparr>newCategoryName := '' Food''\<rparr>)
      (handleAddNewCategory (demo\<lparr>newCategoryName := '' Food''\<rparr>)))
     = categories demo \<and>
   categories (after (demo\<lparr>newCategoryName := ''   ''\<rparr>)
      (handleAddNewCategory (demo\<lparr>newCategoryName := ''   ''\<rparr>)))
     = categories demo"
proof -
  have t: "trim ''  Rent '' = ''Rent''" "trim '' Food'' = ''Food''" "trim ''   '' = []"
    by (simp_all add: trim_def isWhiteSpace_def)
  have ty: "form_type (newTransaction demo) = Expense"
    and reg: "categories demo Expense = [''Food'', ''Transport'', ''Shopping'', ''Bills'']"
    by (simp_all add: demo_def emptyForm_def defaultCategories_def)
  show ?thesis
    using add_category [of "demo\<lparr>newCategoryName := ''  Rent ''\<rparr>"]
      add_category [of "demo\<lparr>newCategoryName := '' Food''\<rparr>"]
      add_category [of "demo\<lparr>newCategoryName := ''   ''\<rparr>"]
    by (simp add: t ty reg)
qed

section \<open>Facts about dates\<close>

lemma daysInMonth_bounds: "28 \<le> daysInMonth y m" "daysInMonth y m \<le> 31"
  by (simp_all add: daysInMonth_def)

lemma makeDay_inside:
  "1 \<le> d \<Longrightarrow> d \<le> daysInMonth y m \<Longrightarrow>
     makeDay y m d time =
       \<lparr>getFullYear = y, getMonth = m, getDate = d, timeWithinDay = time\<rparr>"
  by (subst makeDay.simps) simp

lemma makeDay_after:
  assumes "daysInMonth y m < d" "d \<le> 31"
  shows "makeDay y m d time =
     \<lparr>getFullYear = fst (monthAfter y m), getMonth = snd (monthAfter y m),
      getDate = d - daysInMonth y m, timeWithinDay = time\<rparr>"
proof -
  have "1 \<le> d - daysInMonth y m" using assms by simp
  moreover have "d - daysInMonth y m \<le> daysInMonth (fst (monthAfter y m)) (snd (monthAfter y m))"
    using assms daysInMonth_bounds(1) [of y m]
      daysInMonth_bounds(1) [of "fst (monthAfter y m)" "snd (monthAfter y m)"]
    by linarith
  moreover have "\<not> d < 1" using assms daysInMonth_bounds(1) [of y m] by linarith
  ultimately show ?thesis
    using assms by (subst makeDay.simps) (simp add: makeDay_inside)
qed

lemma makeDay_zero:
  "makeDay y m 0 time =
     \<lparr>getFullYear = fst (monthBefore y m), getMonth = snd (monthBefore y m),
      getDate = daysInMonth (fst (monthBefore y m)) (snd (monthBefore y m)),
      timeWithinDay = time\<rparr>"
  using daysInMonth_bounds(1) [of "fst (monthBefore y m)" "snd (monthBefore y m)"]
  by (subst makeDay.simps) (simp add: makeDay_inside)

lemma monthBefore_monthAfter:
  "m < 12 \<Longrightarrow> monthBefore (fst (monthAfter y m)) (snd (monthAfter y m)) = (y, m)"
  by (auto simp: monthBefore_def monthAfter_def)

lemma monthAfter_differs: "snd (monthAfter y m) \<noteq> m"
  by (simp add: monthAfter_def)

text \<open>
  Where the zone has the local times that the handler composes (today's day of the
  month in the reference month, carried into the next month when the reference month
  is shorter, and the day the date is clamped to), the assigned date has the reference
  month's year and month, the reference date's time within the day and, as its day,
  today's day of the month or the last day of the reference month when that is smaller.
\<close>

lemma transactionDate_clamped:
  fixes z :: zone and cur now :: jsdate
  defines "composed \<equiv>
     makeDay (getFullYear cur) (getMonth cur) (getDate now) (timeWithinDay cur)"
    and "clamped \<equiv>
     \<lparr>getFullYear = getFullYear cur, getMonth = getMonth cur,
      getDate = min (getDate now) (daysInMonth (getFullYear cur) (getMonth cur)),
      timeWithinDay = timeWithinDay cur\<rparr>"
  assumes "getMonth cur < 12" "1 \<le> getDate now" "getDate now \<le> 31"
    and exists: "z composed = composed" "z clamped = clamped"
  shows "transactionDate z cur now = clamped"
proof (cases "getDate now \<le> daysInMonth (getFullYear cur) (getMonth cur)")
  case True
  with assms(4) have "composed = clamped"
    by (simp add: composed_def clamped_def makeDay_inside)
  with exists(2) show ?thesis
    by (simp add: transactionDate_def setDate_def Let_def composed_def [symmetric])
      (simp add: clamped_def)
next
  case False
  then have over: "daysInMonth (getFullYear cur) (getMonth cur) < getDate now" by simp
  have composed: "composed =
      \<lparr>getFullYear = fst (monthAfter (getFullYear cur) (getMonth cur)),
       getMonth = snd (monthAfter (getFullYear cur) (getMonth cur)),
       getDate = getDate now - daysInMonth (getFullYear cur) (getMonth cur),
       timeWithinDay = timeWithinDay cur\<rparr>"
    unfolding composed_def using over assms(5) by (rule makeDay_after)
  have first: "setDate z cur (getDate now) = composed"
    using exists(1) by (simp add: setDate_def composed_def)
  have "makeDay (getFullYear composed) (getMonth composed) 0 (timeWithinDay composed) = clamped"
    using over assms(3)
    by (simp add: composed makeDay_zero monthBefore_monthAfter clamped_def)
  then have second: "setDate z composed 0 = clamped"
    using exists(2) by (simp add: setDate_def)
  have "getMonth composed \<noteq> getMonth cur"
    by (simp add: composed monthAfter_differs)
  then show ?thesis
    by (simp add: transactionDate_def Let_def first second)
qed

lemma add_date_clamped:
  fixes z :: zone and st :: app_state and now :: jsdate
  defines "cur \<equiv> currentDate st"
  defines "clamped \<equiv>
     \<lparr>getFullYear = getFullYear cur, getMonth = getMonth cur,
      getDate = min (getDate now) (daysInMonth (getFullYear cur) (getMonth cur)),
      timeWithinDay = timeWithinDay cur\<rparr>"
  assumes "form_amount (newTransaction st) \<noteq> []" "form_category (newTransaction st) \<noteq> []"
    and "validDate now" "validDate cur"
    and "z (makeDay (getFullYear cur) (getMonth cur) (getDate now) (timeWithinDay cur)) =
         makeDay (getFullYear cur) (getMonth cur) (getDate now) (timeWithinDay cur)"
    and "z clamped = clamped"
  shows "\<exists>st' t. handleAddTransaction z fmt now dateNow st = Inr st' \<and>
     transactions st' = t # transactions st \<and> dateISO t = clamped \<and>
     validDate (dateISO t) \<and> isSameMonth (dateISO t) (currentDate st)"
proof -
  have "getDate now \<le> 31"
    using assms(5) daysInMonth_bounds(2) [of "getFullYear now" "getMonth now"]
    by (simp add: validDate_def)
  then have "transactionDate z cur now = clamped"
    unfolding clamped_def using assms(5-8)
    by (intro transactionDate_clamped) (simp_all add: validDate_def clamped_def)
  then show ?thesis
    using assms(3-6)
    by (simp add: handleAddTransaction_def Let_def validDate_def isSameMonth_def
        cur_def [symmetric]) (simp add: clamped_def cur_def)
qed

lemma add_date_clamped_example:
  "dateISO (hd (transactions (after
      (filled ''12.50'' ''Food''
         \<lparr>getFullYear = 2025, getMonth = 1, getDate = 10, timeWithinDay = 0\<rparr> [])
      (handleAddTransaction utcZone toLocaleDateString_enUS
         \<lparr>getFullYear = 2026, getMonth = 2, getDate = 31, timeWithinDay = 36000000\<rparr>
         1700000000000
         (filled ''12.50'' ''Food''
            \<lparr>getFullYear = 2025, getMonth = 1, getDate = 10, timeWithinDay = 0\<rparr> [])))))
     = \<lparr>getFullYear = 2025, getMonth = 1, getDate = 28, timeWithinDay = 0\<rparr> \<and>
   dateISO (hd (transactions (after
      (filled ''12.50'' ''Food''
         \<lparr>getFullYear = 2024, getMonth = 1, getDate = 10, timeWithinDay = 0\<rparr> [])
      (handleAddTransaction utcZone toLocaleDateString_enUS
         \<lparr>getFullYear = 2026, getMonth = 2, getDate = 31, timeWithinDay = 36000000\<rparr>
         1700000000000
         (filled ''12.50'' ''Food''
            \<lparr>getFullYear = 2024, getMonth = 1, getDate = 10, timeWithinDay = 0\<rparr> [])))))
     = \<lparr>getFullYear = 2024, getMonth = 1, getDate = 29, timeWithinDay = 0\<rparr>"
proof -
  let ?now = "\<lparr>getFullYear = 2026, getMonth = 2, getDate = 31, timeWithinDay = 36000000\<rparr>"
  let ?cur = "\<lambda>y. \<lparr>getFullYear = y, getMonth = 1, getDate = 10, timeWithinDay = 0\<rparr>"
  let ?s = "\<lambda>y. filled ''12.50'' ''Food'' (?cur y) []"
  have now: "validDate ?now"
    by (simp add: validDate_def daysInMonth_def)
  have s: "form_amount (newTransaction (?s y)) \<noteq> []" "form_category (newTransaction (?s y)) \<noteq> []"
    "currentDate (?s y) = ?cur y" for y
    by (simp_all add: filled_def)
  have cur: "validDate (currentDate (?s y))" for y
    by (simp add: filled_def validDate_def daysInMonth_def)
  from add_date_clamped [of "?s 2025" ?now utcZone toLocaleDateString_enUS 1700000000000,
      OF s(1,2) now cur]
  obtain a t where a:
    "handleAddTransaction utcZone toLocaleDateString_enUS ?now 1700000000000 (?s 2025) = Inr a"
    "transactions a = t # transactions (?s 2025)"
    "dateISO t = \<lparr>getFullYear = 2025, getMonth = 1, getDate = min 31 (daysInMonth 2025 1),
       timeWithinDay = 0\<rparr>"
    by (auto simp: filled_def utcZone_def)
  from add_date_clamped [of "?s 2024" ?now utcZone toLocaleDateString_enUS 1700000000000,
      OF s(1,2) now cur]
  obtain b u where b:
    "handleAddTransaction utcZone toLocaleDateString_enUS ?now 1700000000000 (?s 2024) = Inr b"
    "transactions b = u # transactions (?s 2024)"
    "dateISO u = \<lparr>getFullYear = 2024, getMonth = 1, getDate = min 31 (daysInMonth 2024 1),
       timeWithinDay = 0\<rparr>"
    by (auto simp: filled_def utcZone_def)
  show ?thesis
    unfolding after_def a(1) b(1)
    by (simp add: a b daysInMonth_def isLeapYear_def)
qed

text \<open>
  C3, where the code departs from it. The device is in a zone whose calendar has no
  31 December 1994 (Pacific/Kiritimati), the month picker has set the reference date
  to 1 December 1994, and today is 31 January 2025. \<open>setDate(31)\<close> composes a time on
  the missing day, which reads as 1 January 1995; its month is not the reference
  month's, so \<open>setDate(0)\<close> composes the day before 1 January 1995, the missing day
  again. The new transaction is dated 1 January 1995, outside the reference month, and
  the month view of the reference month does not show it. In a zone without
  30 December 2011 (Pacific/Apia), with the reference date 1 December 2011 and today
  30 January 2025, the new transaction is dated 31 December 2011, although today's day
  of the month, 30, is a day of the reference month.
\<close>

theorem add_date_on_skipped_day:
  "dateISO (hd (transactions (after
      (filled ''12.50'' ''Food''
         \<lparr>getFullYear = 1994, getMonth = 11, getDate = 1, timeWithinDay = 0\<rparr> [])
      (handleAddTransaction (skippedDay 1994 11 31) toLocaleDateString_enUS
         \<lparr>getFullYear = 2025, getMonth = 0, getDate = 31, timeWithinDay = 36000000\<rparr>
         1738267200000
         (filled ''12.50'' ''Food''
            \<lparr>getFullYear = 1994, getMonth = 11, getDate = 1, timeWithinDay = 0\<rparr> [])))))
     = \<lparr>getFullYear = 1995, getMonth = 0, getDate = 1, timeWithinDay = 0\<rparr> \<and>
   \<not> isSameMonth \<lparr>getFullYear = 1995, getMonth = 0, getDate = 1, timeWithinDay = 0\<rparr>
      \<lparr>getFullYear = 1994, getMonth = 11, getDate = 1, timeWithinDay = 0\<rparr> \<and>
   getFilteredTransactions (after
      (filled ''12.50'' ''Food''
         \<lparr>getFullYear = 1994, getMonth = 11, getDate = 1, timeWithinDay = 0\<rparr> [])
      (handleAddTransaction (skippedDay 1994 11 31) toLocaleDateString_enUS
         \<lparr>getFullYear = 2025, getMonth = 0, getDate = 31, timeWithinDay = 36000000\<rparr>
         1738267200000
         (filled ''12.50'' ''Food''
            \<lparr>getFullYear = 1994, getMonth = 11, getDate = 1, timeWithinDay = 0\<rparr> [])))
     = [] \<and>
   dateISO (hd (transactions (after
      (filled ''12.50'' ''Food''
         \<lparr>getFullYear = 2011, getMonth = 11, getDate = 1, timeWithinDay = 0\<rparr> [])
      (handleAddTransaction (skippedDay 2011 11 30) toLocaleDateString_enUS
         \<lparr>getFullYear = 2025, getMonth = 0, getDate = 30, timeWithinDay = 36000000\<rparr>
         1738184400000
         (filled ''12.50'' ''Food''
            \<lparr>getFullYear = 2011, getMonth = 11, getDate = 1, timeWithinDay = 0\<rparr> [])))))
     = \<lparr>getFullYear = 2011, getMonth = 11, getDate = 31, timeWithinDay = 0\<rparr> \<and>
   min 30 (daysInMonth 2011 11) = 30"
proof -
  have dec: "daysInMonth y 11 = 31" and jan: "daysInMonth y 0 = 31" for y
    by (simp_all add: daysInMonth_def)
  have next_year: "makeDay 1994 11 32 0 =
      \<lparr>getFullYear = 1995, getMonth = 0, getDate = 1, timeWithinDay = 0\<rparr>"
    by (subst makeDay.simps) (simp add: dec jan monthAfter_def makeDay_inside)
  have kiritimati: "transactionDate (skippedDay 1994 11 31)
      \<lparr>getFullYear = 1994, getMonth = 11, getDate = 1, timeWithinDay = 0\<rparr>
      \<lparr>getFullYear = 2025, getMonth = 0, getDate = 31, timeWithinDay = 36000000\<rparr> =
      \<lparr>getFullYear = 1995, getMonth = 0, getDate = 1, timeWithinDay = 0\<rparr>"
    by (simp add: transactionDate_def setDate_def skippedDay_def Let_def makeDay_inside
        makeDay_zero monthBefore_def dec next_year)
  have apia: "transactionDate (skippedDay 2011 11 30)
      \<lparr>getFullYear = 2011, getMonth = 11, getDate = 1, timeWithinDay = 0\<rparr>
      \<lparr>getFullYear = 2025, getMonth = 0, getDate = 30, timeWithinDay = 36000000\<rparr> =
      \<lparr>getFullYear = 2011, getMonth = 11, getDate = 31, timeWithinDay = 0\<rparr>"
    by (simp add: transactionDate_def setDate_def skippedDay_def Let_def makeDay_inside dec)
  show ?thesis
    by (simp add: handleAddTransaction_def after_def filled_def Let_def kiritimati apia
        getFilteredTransactions_def isSameMonth_def dec)
qed

section \<open>Facts about the month filter\<close>

text \<open>
  C5. The month filter returns transactions of the ledger only; month and year of the
  stored date of each of them are those of the reference month; and a transaction
  whose stored date has another month or another year is not returned.
\<close>

theorem month_filter:
  "set (getFilteredTransactions st) \<subseteq> set (transactions st) \<and>
   (\<forall>t \<in> set (getFilteredTransactions st).
      getMonth (dateISO t) = getMonth (currentDate st) \<and>
      getFullYear (dateISO t) = getFullYear (currentDate st)) \<and>
   (\<forall>t. getMonth (dateISO t) \<noteq> getMonth (currentDate st) \<or>
        getFullYear (dateISO t) \<noteq> getFullYear (currentDate st) \<longrightarrow>
        t \<notin> set (getFilteredTransactions st))"
  by (auto simp: getFilteredTransactions_def isSameMonth_def)

theorem month_filter_witness:
  "getFilteredTransactions
     (demo\<lparr>transactions :=
        [entry ''3'' Income 1000 ''Salary'',
         (entry ''2'' Expense 7 ''Food'')\<lparr>dateISO := \<lparr>getFullYear = 2024, getMonth = 2, getDate = 15, timeWithinDay = 0\<rparr>\<rparr>,
         (entry ''1'' Expense 50 ''Food'')\<lparr>dateISO := \<lparr>getFullYear = 2025, getMonth = 3, getDate = 1, timeWithinDay = 0\<rparr>\<rparr>]\<rparr>)
   = [entry ''3'' Income 1000 ''Salary'']"
  using month_filter [of "demo\<lparr>transactions :=
        [entry ''3'' Income 1000 ''Salary'',
         (entry ''2'' Expense 7 ''Food'')\<lparr>dateISO := \<lparr>getFullYear = 2024, getMonth = 2, getDate = 15, timeWithinDay = 0\<rparr>\<rparr>,
         (entry ''1'' Expense 50 ''Food'')\<lparr>dateISO := \<lparr>getFullYear = 2025, getMonth = 3, getDate = 1, timeWithinDay = 0\<rparr>\<rparr>]\<rparr>"]
  by (simp add: getFilteredTransactions_def isSameMonth_def demo_def entry_def)

section \<open>Facts about adding a transaction\<close>

lemma floor_rat_numeral_div:
  "\<lfloor>(numeral a :: rat) / numeral b\<rfloor> = numeral a div numeral b"
  using floor_divide_of_int_eq [of "numeral a" "numeral b", where ?'a = rat] by simp

lemma ceiling_rat_numeral_div:
  "\<lceil>(numeral a :: rat) / numeral b\<rceil> = - ((- numeral a) div numeral b)"
  using floor_divide_of_int_eq [of "- numeral a" "numeral b", where ?'a = rat]
  by (simp add: ceiling_def)

lemmas number_eval =
  roundDouble_def roundMagnitude_def binade_def roundHalfEven_def pow2_def compute_bitlen Let_def
  floor_rat_numeral_div ceiling_rat_numeral_div

lemmas parse_eval =
  parseFloat_def signOf_def exponentPart_def isWhiteSpace_def isDigit_def digitsValue_def
  digitValue_def

lemma parseFloat_abc: "parseFloat ''abc'' = NaN"
  by (simp add: parse_eval)

lemma parseFloat_12_50: "parseFloat ''12.50'' = Fin (25 / 2)"
proof -
  have "parseFloat ''12.50'' = roundDouble (25 / 2)"
    by (simp add: parse_eval)
  also have "\<dots> = Fin (25 / 2)"
    by (simp add: number_eval)
  finally show ?thesis .
qed

lemma toString_example: "toString 1700000000000 = ''1700000000000''"
  by (simp add: toString_def digitsOf.simps)

text \<open>
  C2, as the code has it. The add fails, with the alert and every cell as before,
  exactly when the amount input is the empty string or no category is selected. Any
  other amount input is accepted: the ledger gets one new transaction, whose amount is
  what \<open>parseFloat\<close> makes of the input.
\<close>

theorem add_validation:
  "(handleAddTransaction z fmt now dateNow st = Inl Missing_Info \<longleftrightarrow>
      form_amount (newTransaction st) = [] \<or> form_category (newTransaction st) = []) \<and>
   (form_amount (newTransaction st) = [] \<or> form_category (newTransaction st) = [] \<longrightarrow>
      after st (handleAddTransaction z fmt now dateNow st) = st) \<and>
   (form_amount (newTransaction st) \<noteq> [] \<and> form_category (newTransaction st) \<noteq> [] \<longrightarrow>
      (\<exists>t. transactions (after st (handleAddTransaction z fmt now dateNow st)) =
             t # transactions st \<and>
           amount t = parseFloat (form_amount (newTransaction st))))"
  by (simp add: handleAddTransaction_def after_def Let_def)

theorem add_validation_witness:
  "handleAddTransaction utcZone toLocaleDateString_enUS
     \<lparr>getFullYear = 2025, getMonth = 2, getDate = 20, timeWithinDay = 36000000\<rparr> 1700000000000
     (filled [] ''Food'' \<lparr>getFullYear = 2025, getMonth = 2, getDate = 1, timeWithinDay = 0\<rparr> []) = Inl Missing_Info \<and>
   handleAddTransaction utcZone toLocaleDateString_enUS
     \<lparr>getFullYear = 2025, getMonth = 2, getDate = 20, timeWithinDay = 36000000\<rparr> 1700000000000
     (filled ''12.50'' [] \<lparr>getFullYear = 2025, getMonth = 2, getDate = 1, timeWithinDay = 0\<rparr> []) = Inl Missing_Info \<and>
   map amount (transactions (after
     (filled ''12.50'' ''Food'' \<lparr>getFullYear = 2025, getMonth = 2, getDate = 1, timeWithinDay = 0\<rparr> [])
     (handleAddTransaction utcZone toLocaleDateString_enUS
        \<lparr>getFullYear = 2025, getMonth = 2, getDate = 20, timeWithinDay = 36000000\<rparr> 1700000000000
        (filled ''12.50'' ''Food'' \<lparr>getFullYear = 2025, getMonth = 2, getDate = 1, timeWithinDay = 0\<rparr> []))))
     = [Fin (25 / 2)]"
proof -
  let ?now = "\<lparr>getFullYear = 2025, getMonth = 2, getDate = 20, timeWithinDay = 36000000\<rparr>"
  let ?cur = "\<lparr>getFullYear = 2025, getMonth = 2, getDate = 1, timeWithinDay = 0\<rparr>"
  have f: "form_amount (newTransaction (filled a c ?cur [])) = a"
    "form_category (newTransaction (filled a c ?cur [])) = c"
    "transactions (filled a c ?cur []) = []" for a c
    by (simp_all add: filled_def)
  from add_validation [of utcZone toLocaleDateString_enUS ?now 1700000000000 "filled ''12.50'' ''Food'' ?cur []"]
  obtain t where "transactions (after (filled ''12.50'' ''Food'' ?cur [])
       (handleAddTransaction utcZone toLocaleDateString_enUS ?now 1700000000000
          (filled ''12.50'' ''Food'' ?cur []))) = [t]"
    and "amount t = parseFloat ''12.50''"
    unfolding f by auto
  then show ?thesis
    using add_validation [of utcZone toLocaleDateString_enUS ?now 1700000000000 "filled [] ''Food'' ?cur []"]
      add_validation [of utcZone toLocaleDateString_enUS ?now 1700000000000 "filled ''12.50'' [] ?cur []"]
    unfolding f by (simp add: parseFloat_12_50)
qed

text \<open>
  The amount input \<open>abc\<close> does not parse as a number, and the add goes through: the
  ledger has a new first transaction, with amount NaN.
\<close>

theorem add_unparseable_amount:
  "parseFloat ''abc'' = NaN \<and>
   map tid (transactions (after
     (filled ''abc'' ''Food'' \<lparr>getFullYear = 2025, getMonth = 2, getDate = 1, timeWithinDay = 0\<rparr>
        [entry ''4'' Expense 12 ''Food''])
     (handleAddTransaction utcZone toLocaleDateString_enUS
        \<lparr>getFullYear = 2025, getMonth = 2, getDate = 20, timeWithinDay = 36000000\<rparr> 1700000000000
        (filled ''abc'' ''Food'' \<lparr>getFullYear = 2025, getMonth = 2, getDate = 1, timeWithinDay = 0\<rparr>
           [entry ''4'' Expense 12 ''Food'']))))
     = [''1700000000000'', ''4''] \<and>
   map amount (transactions (after
     (filled ''abc'' ''Food'' \<lparr>getFullYear = 2025, getMonth = 2, getDate = 1, timeWithinDay = 0\<rparr>
        [entry ''4'' Expense 12 ''Food''])
     (handleAddTransaction utcZone toLocaleDateString_enUS
        \<lparr>getFullYear = 2025, getMonth = 2, getDate = 20, timeWithinDay = 36000000\<rparr> 1700000000000
        (filled ''abc'' ''Food'' \<lparr>getFullYear = 2025, getMonth = 2, getDate = 1, timeWithinDay = 0\<rparr>
           [entry ''4'' Expense 12 ''Food'']))))
     = [NaN, Fin 12]"
  by (simp add: handleAddTransaction_def after_def filled_def Let_def parseFloat_abc
      toString_example entry_def)

text \<open>
  C4, as the code has it. A valid add puts the new transaction in front of the old
  ledger, which so grows by one. Its id is the decimal rendering of the clock reading
  \<open>Date.now()\<close>; it differs from every id of the old ledger when each of those renders
  an earlier reading.
\<close>

theorem add_prepends:
  assumes "form_amount (newTransaction st) \<noteq> []" "form_category (newTransaction st) \<noteq> []"
  shows "\<exists>st' t. handleAddTransaction z fmt now dateNow st = Inr st' \<and>
     transactions st' = t # transactions st \<and>
     length (transactions st') = length (transactions st) + 1 \<and>
     tid t = toString dateNow \<and>
     ((\<forall>u \<in> set (transactions st). \<exists>n < dateNow. tid u = toString n) \<longrightarrow>
        tid t \<notin> set (map tid (transactions st)))"
proof -
  have "toString dateNow \<notin> set (map tid (transactions st))"
    if "\<forall>u \<in> set (transactions st). \<exists>n < dateNow. tid u = toString n"
  proof
    assume "toString dateNow \<in> set (map tid (transactions st))"
    then obtain u where "u \<in> set (transactions st)" "tid u = toString dateNow" by auto
    with that obtain n where "n < dateNow" "toString n = toString dateNow" by metis
    then show False using toString_inj by blast
  qed
  then show ?thesis
    using assms by (simp add: handleAddTransaction_def Let_def)
qed

theorem add_prepends_witness:
  "map tid (transactions (after
     (filled ''12.50'' ''Food'' \<lparr>getFullYear = 2025, getMonth = 2, getDate = 1, timeWithinDay = 0\<rparr>
        [entry (toString 1699999999999) Expense 12 ''Food''])
     (handleAddTransaction utcZone toLocaleDateString_enUS
        \<lparr>getFullYear = 2025, getMonth = 2, getDate = 20, timeWithinDay = 36000000\<rparr> 1700000000000
        (filled ''12.50'' ''Food'' \<lparr>getFullYear = 2025, getMonth = 2, getDate = 1, timeWithinDay = 0\<rparr>
           [entry (toString 1699999999999) Expense 12 ''Food'']))))
     = [''1700000000000'', ''1699999999999''] \<and>
   toString 1700000000000 \<notin> set (map tid
        [entry (toString 1699999999999) Expense 12 ''Food''])"
proof -
  let ?now = "\<lparr>getFullYear = 2025, getMonth = 2, getDate = 20, timeWithinDay = 36000000\<rparr>"
  let ?s = "filled ''12.50'' ''Food'' \<lparr>getFullYear = 2025, getMonth = 2, getDate = 1, timeWithinDay = 0\<rparr>
        [entry (toString 1699999999999) Expense 12 ''Food'']"
  have f: "form_amount (newTransaction ?s) \<noteq> []" "form_category (newTransaction ?s) \<noteq> []"
    and l: "transactions ?s = [entry (toString 1699999999999) Expense 12 ''Food'']"
    by (simp_all add: filled_def)
  have earlier: "\<forall>u \<in> set (transactions ?s). \<exists>n < 1700000000000. tid u = toString n"
    unfolding l by (simp add: entry_def) (rule exI [of _ 1699999999999], simp)
  from add_prepends [of ?s utcZone toLocaleDateString_enUS ?now 1700000000000, OF f] earlier
  obtain a t where "handleAddTransaction utcZone toLocaleDateString_enUS ?now 1700000000000 ?s = Inr a"
    "transactions a = t # transactions ?s" "tid t = toString 1700000000000"
    "tid t \<notin> set (map tid (transactions ?s))"
    by blast
  then show ?thesis
    unfolding after_def l
    by (simp add: entry_def toString_def digitsOf.simps)
qed

text \<open>
  When the clock reads what it read at an earlier add, the new id is an id the ledger
  already has.
\<close>

theorem add_same_clock_reading:
  "map tid (transactions (after
     (filled ''12.50'' ''Food'' \<lparr>getFullYear = 2025, getMonth = 2, getDate = 1, timeWithinDay = 0\<rparr>
        [entry ''1700000000000'' Expense 12 ''Food''])
     (handleAddTransaction utcZone toLocaleDateString_enUS
        \<lparr>getFullYear = 2025, getMonth = 2, getDate = 20, timeWithinDay = 36000000\<rparr> 1700000000000
        (filled ''12.50'' ''Food'' \<lparr>getFullYear = 2025, getMonth = 2, getDate = 1, timeWithinDay = 0\<rparr>
           [entry ''1700000000000'' Expense 12 ''Food'']))))
     = [''1700000000000'', ''1700000000000'']"
  by (simp add: handleAddTransaction_def after_def filled_def Let_def toString_example entry_def)

section \<open>Facts about double arithmetic\<close>

lemma pow2_pos: "0 < pow2 e"
  by (simp add: pow2_def)

lemma pow2_nonneg_exp: "0 \<le> e \<Longrightarrow> pow2 e = 2 ^ nat e"
  by (simp add: pow2_def)

lemma pow2_neg_exp: "e \<le> 0 \<Longrightarrow> pow2 e = 1 / 2 ^ nat (- e)"
  by (cases "e = 0") (simp_all add: pow2_def)

lemma pow2_eq_powi: "pow2 e = 2 powi e"
  by (simp add: pow2_def power_int_def field_simps)

lemma pow2_add: "pow2 (a + b) = pow2 a * pow2 b"
  by (simp add: pow2_eq_powi power_int_add)

lemma binade_lower: "0 < x \<Longrightarrow> pow2 (binade x) \<le> x"
proof (cases "1 \<le> x")
  case True
  then have pos: "0 < \<lfloor>x\<rfloor>" by simp
  from bitlen_bounds [OF pos] have "2 ^ nat (bitlen \<lfloor>x\<rfloor> - 1) \<le> \<lfloor>x\<rfloor>" by simp
  then have "rat_of_int (2 ^ nat (bitlen \<lfloor>x\<rfloor> - 1)) \<le> rat_of_int \<lfloor>x\<rfloor>"
    by (simp only: of_int_le_iff)
  also have "\<dots> \<le> x" by simp
  finally have "2 ^ nat (bitlen \<lfloor>x\<rfloor> - 1) \<le> x" by simp
  moreover have "0 \<le> bitlen \<lfloor>x\<rfloor> - 1"
    using pos by (simp add: bitlen_alt_def)
  ultimately show ?thesis using True by (simp add: binade_def pow2_def)
next
  case False
  assume x: "0 < x"
  let ?m = "\<lceil>1 / x\<rceil> - 1"
  from False x have "1 < 1 / x" by (simp add: field_simps)
  then have m: "0 < ?m" by (simp add: less_ceiling_iff)
  from bitlen_bounds [OF m] have "?m < 2 ^ nat (bitlen ?m)" by simp
  then have "\<lceil>1 / x\<rceil> \<le> 2 ^ nat (bitlen ?m)" by simp
  then have "1 / x \<le> 2 ^ nat (bitlen ?m)"
    by (simp add: ceiling_le_iff)
  then have "1 / 2 ^ nat (bitlen ?m) \<le> x"
    using x by (simp add: field_simps)
  moreover have "0 \<le> bitlen ?m" by (rule bitlen_nonneg)
  ultimately show ?thesis using False
    by (simp add: binade_def pow2_neg_exp)
qed

lemma roundHalfEven_of_int: "roundHalfEven (of_int m) = m"
  by (simp add: roundHalfEven_def)

lemma roundHalfEven_ge_floor: "\<lfloor>q\<rfloor> \<le> roundHalfEven q"
  by (simp add: roundHalfEven_def Let_def)

lemma roundHalfEven_nonneg: "0 \<le> q \<Longrightarrow> 0 \<le> roundHalfEven q"
  using roundHalfEven_ge_floor [of q] by (simp add: order_trans [of 0 "\<lfloor>q\<rfloor>"])

lemma roundHalfEven_pos: "1 \<le> q \<Longrightarrow> 0 < roundHalfEven q"
proof -
  assume "1 \<le> q"
  then have "1 \<le> \<lfloor>q\<rfloor>" by simp
  with roundHalfEven_ge_floor [of q] show ?thesis by linarith
qed

lemma scaled_ge_one:
  assumes "0 < x" "x * 2 ^ 1074 \<in> \<int>"
  shows "1 \<le> x / pow2 (max (binade x - 52) (- 1074))"
proof (cases "binade x - 52 \<le> - 1074")
  case True
  then have e: "max (binade x - 52) (- 1074) = - 1074" by simp
  from assms(2) obtain k :: int where k: "x * 2 ^ 1074 = of_int k" by (auto elim: Ints_cases)
  with assms(1) have "0 < rat_of_int k"
    by (metis zero_less_mult_iff zero_less_numeral zero_less_power)
  then have "1 \<le> k" by simp
  then have "1 \<le> rat_of_int k" by simp
  with k show ?thesis by (simp add: e pow2_def)
next
  case False
  then have e: "max (binade x - 52) (- 1074) = binade x - 52" by simp
  have "pow2 (binade x - 52) \<le> pow2 (binade x)"
    by (simp add: pow2_eq_powi power_int_increasing)
  also have "\<dots> \<le> x" using assms(1) by (rule binade_lower)
  finally show ?thesis using pow2_pos [of "binade x - 52"] by (simp add: e)
qed

lemma onGrid_Ints: "onGrid q \<longleftrightarrow> q * 2 ^ 1074 \<in> \<int>"
  unfolding onGrid_def
  by (metis Ints_of_int floor_of_int Ints_cases)

lemma onGrid_zero: "onGrid 0"
  by (simp add: onGrid_def)

lemma onGrid_minus: "onGrid q \<Longrightarrow> onGrid (- q)"
  by (simp add: onGrid_Ints)

lemma onGrid_diff: "onGrid p \<Longrightarrow> onGrid q \<Longrightarrow> onGrid (p - q)"
  by (simp add: onGrid_Ints left_diff_distrib)

lemma onGrid_scaled: "- 1074 \<le> e \<Longrightarrow> onGrid (of_int m * pow2 e)"
proof -
  assume e: "- 1074 \<le> e"
  have "pow2 e * 2 ^ 1074 = pow2 e * pow2 1074" by (simp add: pow2_def)
  also have "\<dots> = pow2 (e + 1074)" by (simp add: pow2_add)
  also have "\<dots> = 2 ^ nat (e + 1074)" using e by (simp add: pow2_def)
  finally have "of_int m * pow2 e * 2 ^ 1074 = rat_of_int (m * 2 ^ nat (e + 1074))"
    by simp
  then show ?thesis unfolding onGrid_Ints by (metis Ints_of_int)
qed

lemma roundMagnitude_onGrid: "onGrid (roundMagnitude a)"
  unfolding roundMagnitude_def Let_def by (rule onGrid_scaled) simp

lemma roundMagnitude_nonneg: "0 \<le> a \<Longrightarrow> 0 \<le> roundMagnitude a"
proof -
  assume "0 \<le> a"
  then have "0 \<le> a / pow2 (max (binade a - 52) (- 1074))"
    using pow2_pos [of "max (binade a - 52) (- 1074)"] by simp
  then have "0 \<le> roundHalfEven (a / pow2 (max (binade a - 52) (- 1074)))"
    by (rule roundHalfEven_nonneg)
  then show ?thesis
    using pow2_pos [of "max (binade a - 52) (- 1074)"]
    by (simp add: roundMagnitude_def Let_def)
qed

lemma roundMagnitude_pos: "0 < a \<Longrightarrow> onGrid a \<Longrightarrow> 0 < roundMagnitude a"
proof -
  assume "0 < a" "onGrid a"
  then have "1 \<le> a / pow2 (max (binade a - 52) (- 1074))"
    using scaled_ge_one [of a] by (simp add: onGrid_Ints)
  then have "0 < roundHalfEven (a / pow2 (max (binade a - 52) (- 1074)))"
    by (rule roundHalfEven_pos)
  then show ?thesis
    using pow2_pos [of "max (binade a - 52) (- 1074)"]
    by (simp add: roundMagnitude_def Let_def)
qed

lemma roundDouble_representable: "representable (roundDouble x)"
  using roundMagnitude_onGrid [of "\<bar>x\<bar>"]
  by (simp add: roundDouble_def representable_def Let_def onGrid_zero onGrid_minus
      del: abs_of_nonneg abs_of_pos abs_of_neg abs_of_nonpos)

lemma jsadd_representable: "representable (jsadd a b)"
  by (cases a; cases b) (simp_all add: roundDouble_representable, simp_all add: representable_def)

lemma roundDouble_positive:
  assumes "onGrid x"
  shows "isPositive (roundDouble x) \<longleftrightarrow> 0 < x"
proof (cases "0 < x")
  case True
  with assms have "0 < roundMagnitude \<bar>x\<bar>"
    by (simp add: roundMagnitude_pos)
  with True show ?thesis
    by (simp add: roundDouble_def Let_def isPositive_def)
next
  case False
  have "0 \<le> roundMagnitude \<bar>x\<bar>"
    by (rule roundMagnitude_nonneg) simp
  with False show ?thesis
    by (simp add: roundDouble_def Let_def isPositive_def
        del: abs_of_nonneg abs_of_pos abs_of_neg abs_of_nonpos)
qed

lemma numGe_refl: "a \<noteq> NaN \<Longrightarrow> numGe a a"
  by (cases a) simp_all

lemma numGe_trans: "numGe a b \<Longrightarrow> numGe b c \<Longrightarrow> numGe a c"
  by (cases a; cases b; cases c) simp_all

lemma isPositive_jssub:
  assumes "representable a" "representable b" "a \<noteq> NaN" "b \<noteq> NaN"
  shows "isPositive (jssub b a) \<longleftrightarrow> \<not> numGe a b"
proof (cases a; cases b)
  fix p q
  assume ab: "a = Fin p" "b = Fin q"
  with assms have "onGrid (q - p)"
    by (simp add: representable_def onGrid_diff)
  then have "isPositive (roundDouble (q - p)) \<longleftrightarrow> 0 < q - p"
    by (rule roundDouble_positive)
  with ab show ?thesis by (simp add: jssub_def) linarith
qed (use assms in \<open>simp_all add: jssub_def isPositive_def\<close>)

lemma roundMagnitude_int:
  assumes "0 < n" "n \<le> 2 ^ 53"
  shows "roundMagnitude (rat_of_int n) = rat_of_int n"
proof -
  have one: "1 \<le> rat_of_int n" using assms(1) by simp
  then have bin: "binade (rat_of_int n) = bitlen n - 1"
    by (simp add: binade_def)
  have b1: "1 \<le> bitlen n" using assms(1) by (simp add: bitlen_alt_def)
  have "n < 2 ^ nat 54" using assms(2) by simp
  then have b54: "bitlen n \<le> 54" by (simp add: bitlen_le_iff_power)
  have e: "max (binade (rat_of_int n) - 52) (- 1074) = bitlen n - 53"
    using b1 by (simp add: bin)
  show ?thesis
  proof (cases "bitlen n \<le> 53")
    case True
    define k where "k = nat (53 - bitlen n)"
    have p: "pow2 (bitlen n - 53) = 1 / 2 ^ k"
      using True by (simp add: pow2_neg_exp k_def)
    have "rat_of_int n / pow2 (bitlen n - 53) = rat_of_int (n * 2 ^ k)"
      by (simp add: p)
    then have "roundHalfEven (rat_of_int n / pow2 (bitlen n - 53)) = n * 2 ^ k"
      by (simp only: roundHalfEven_of_int)
    then show ?thesis
      by (simp add: roundMagnitude_def Let_def e p)
  next
    case False
    with b54 have b: "bitlen n = 54" by simp
    then have "54 \<le> bitlen n" by simp
    then have "2 ^ 53 \<le> n" by (simp add: bitlen_ge_iff_power)
    with assms(2) have n: "n = 2 ^ 53" by simp
    have "rat_of_int n / pow2 1 = rat_of_int (2 ^ 52)"
      by (simp add: n pow2_def)
    then have "roundHalfEven (rat_of_int n / pow2 1) = 2 ^ 52"
      by (simp only: roundHalfEven_of_int)
    then show ?thesis
      by (simp add: roundMagnitude_def Let_def e b) (simp add: n pow2_def)
  qed
qed

lemma roundDouble_int:
  assumes "\<bar>n\<bar> \<le> 2 ^ 53"
  shows "roundDouble (rat_of_int n) = Fin (rat_of_int n)"
proof (cases "n = 0")
  case True
  then show ?thesis by (simp add: roundDouble_def)
next
  case False
  then have "0 < \<bar>n\<bar>" by simp
  then have m: "roundMagnitude (rat_of_int \<bar>n\<bar>) = rat_of_int \<bar>n\<bar>"
    using assms by (rule roundMagnitude_int)
  have small: "\<not> (2 :: rat) ^ 1024 \<le> rat_of_int \<bar>n\<bar>"
  proof -
    have "rat_of_int \<bar>n\<bar> \<le> rat_of_int (2 ^ 53)" using assms by (simp only: of_int_le_iff)
    also have "\<dots> < 2 ^ 1024" by simp
    finally show ?thesis by simp
  qed
  have abs: "\<bar>rat_of_int n\<bar> = rat_of_int \<bar>n\<bar>" by simp
  show ?thesis
    unfolding roundDouble_def Let_def abs m
    using False small by (simp del: of_int_abs)
qed

section \<open>Facts about sorting\<close>

text \<open>What a sort keeps when it returns the elements it was given.\<close>

lemma permutes_set: "permutes srt \<Longrightarrow> set (srt cmp xs) = set xs"
  by (metis permutes_def mset_eq_setD)

lemma permutes_sum_list:
  assumes "permutes srt"
  shows "sum_list (map h (srt cmp xs)) = (sum_list (map h xs) :: rat)"
proof -
  have "mset (map h (srt cmp xs)) = mset (map h xs)"
    using assms by (simp add: permutes_def)
  then have "sum_mset (mset (map h (srt cmp xs))) = sum_mset (mset (map h xs))"
    by simp
  then show ?thesis by (simp only: sum_mset_sum_list)
qed

lemma sorted_wrt_two:
  "sorted_wrt R xs \<Longrightarrow> a \<in> set xs \<Longrightarrow> b \<in> set xs \<Longrightarrow> a \<noteq> b \<Longrightarrow> R a b \<or> R b a"
  by (induction xs) auto

text \<open>The insertion sort returns its elements, in an order that a consistent
  comparison function agrees with.\<close>

lemma set_insertSorted: "set (insertSorted cmp x ys) = insert x (set ys)"
  by (induction ys) auto

lemma sortBy_Nil: "sortBy cmp [] = []"
  by (simp add: sortBy_def)

lemma sortBy_Cons: "sortBy cmp (x # xs) = insertSorted cmp x (sortBy cmp xs)"
  by (simp add: sortBy_def)

lemma set_sortBy: "set (sortBy cmp xs) = set xs"
  by (induction xs) (simp_all add: sortBy_Nil sortBy_Cons set_insertSorted)

lemma mset_insertSorted: "mset (insertSorted cmp x ys) = add_mset x (mset ys)"
  by (induction ys) simp_all

lemma mset_sortBy: "mset (sortBy cmp xs) = mset xs"
  by (induction xs) (simp_all add: sortBy_Nil sortBy_Cons mset_insertSorted)

lemma permutes_sortBy: "permutes sortBy"
  by (simp add: permutes_def mset_sortBy)

lemma sorted_wrt_insertSorted:
  assumes "sorted_wrt R ys"
    and "\<And>y. y \<in> set ys \<Longrightarrow> isPositive (cmp x y) \<Longrightarrow> R y x"
    and "\<And>y. y \<in> set ys \<Longrightarrow> \<not> isPositive (cmp x y) \<Longrightarrow> R x y"
    and "\<And>y z. y \<in> set ys \<Longrightarrow> z \<in> set ys \<Longrightarrow> R x y \<Longrightarrow> R y z \<Longrightarrow> R x z"
  shows "sorted_wrt R (insertSorted cmp x ys)"
  using assms
proof (induction ys)
  case Nil
  then show ?case by simp
next
  case (Cons y ys)
  have sorted: "sorted_wrt R ys" and first: "\<And>z. z \<in> set ys \<Longrightarrow> R y z"
    using Cons.prems(1) by simp_all
  show ?case
  proof (cases "isPositive (cmp x y)")
    case True
    have "sorted_wrt R (insertSorted cmp x ys)"
    proof (rule Cons.IH [OF sorted])
      fix w assume "w \<in> set ys" "isPositive (cmp x w)"
      then show "R w x" using Cons.prems(2) [of w] by auto
    next
      fix w assume "w \<in> set ys" "\<not> isPositive (cmp x w)"
      then show "R x w" using Cons.prems(3) [of w] by auto
    next
      fix w z assume "w \<in> set ys" "z \<in> set ys" "R x w" "R w z"
      then show "R x z" using Cons.prems(4) [of w z] by auto
    qed
    moreover have "R y x" using Cons.prems(2) [of y] True by auto
    ultimately show ?thesis
      using True first by (simp add: set_insertSorted)
  next
    case False
    have xy: "R x y" using Cons.prems(3) [of y] False by auto
    have "R x z" if "z \<in> set ys" for z
      using Cons.prems(4) [of y z] xy first [OF that] that by auto
    then show ?thesis using False xy Cons.prems(1) by simp
  qed
qed

lemma sorted_wrt_sortBy_subset:
  assumes pos: "\<And>a b. a \<in> S \<Longrightarrow> b \<in> S \<Longrightarrow> isPositive (cmp a b) \<Longrightarrow> R b a"
    and npos: "\<And>a b. a \<in> S \<Longrightarrow> b \<in> S \<Longrightarrow> \<not> isPositive (cmp a b) \<Longrightarrow> R a b"
    and trans: "\<And>a b c. a \<in> S \<Longrightarrow> b \<in> S \<Longrightarrow> c \<in> S \<Longrightarrow> R a b \<Longrightarrow> R b c \<Longrightarrow> R a c"
  shows "set xs \<subseteq> S \<Longrightarrow> sorted_wrt R (sortBy cmp xs)"
proof (induction xs)
  case Nil
  show ?case by (simp add: sortBy_Nil)
next
  case (Cons x xs)
  from Cons.prems have x: "x \<in> S" and xs: "set xs \<subseteq> S" by simp_all
  have sub: "set (sortBy cmp xs) \<subseteq> S" using xs by (simp add: set_sortBy)
  have "sorted_wrt R (sortBy cmp xs)" using xs by (rule Cons.IH)
  then have "sorted_wrt R (insertSorted cmp x (sortBy cmp xs))"
  proof (rule sorted_wrt_insertSorted)
    fix y assume "y \<in> set (sortBy cmp xs)" "isPositive (cmp x y)"
    with sub x show "R y x" by (meson pos subsetD)
  next
    fix y assume "y \<in> set (sortBy cmp xs)" "\<not> isPositive (cmp x y)"
    with sub x show "R x y" by (meson npos subsetD)
  next
    fix y z assume "y \<in> set (sortBy cmp xs)" "z \<in> set (sortBy cmp xs)" "R x y" "R y z"
    with sub x show "R x z" by (meson trans subsetD)
  qed
  then show ?case by (simp only: sortBy_Cons)
qed

section \<open>Facts about grouping\<close>

lemma sumAmounts_Nil: "sumAmounts [] = Fin 0"
  by (simp add: sumAmounts_def)

lemma sumAmounts_snoc: "sumAmounts (ts @ [t]) = jsadd (sumAmounts ts) (amount t)"
  by (simp add: sumAmounts_def)

lemma groupKey_inj:
  "groupKey t = groupKey u \<longleftrightarrow> ttype t = ttype u \<and> category t = category u"
  by (cases "ttype t"; cases "ttype u") (auto simp: groupKey_def typeName_def)

lemma addToGroups_keys:
  "map fst (addToGroups gs t) =
     (if groupKey t \<in> set (map fst gs) then map fst gs else map fst gs @ [groupKey t])"
proof -
  have fst_upd: "map fst (map (\<lambda>(k', g). if k' = k then (k', f g) else (k', g)) xs) = map fst xs"
    for k :: string and f :: "group \<Rightarrow> group" and xs
    by (induction xs) auto
  have none: "map_of gs (groupKey t) = None \<longleftrightarrow> groupKey t \<notin> set (map fst gs)"
    by (simp add: map_of_eq_None_iff)
  show ?thesis
    unfolding addToGroups_def Let_def fst_upd none by simp
qed

lemma addToGroups_member:
  assumes "(k, g') \<in> set (addToGroups gs t)"
  shows "(k \<noteq> groupKey t \<and> (k, g') \<in> set gs) \<or>
     (k = groupKey t \<and>
      (\<exists>g. ((k, g) \<in> set gs \<or>
             (groupKey t \<notin> set (map fst gs) \<and>
              g = \<lparr>key = k, gcategory = category t, gtype = ttype t, total = Fin 0,
                   gtransactions = []\<rparr>)) \<and>
           g' = g\<lparr>total := jsadd (total g) (amount t),
                  gtransactions := gtransactions g @ [t]\<rparr>))"
proof -
  have none: "map_of gs (groupKey t) = None \<longleftrightarrow> groupKey t \<notin> set (map fst gs)"
    by (simp add: map_of_eq_None_iff)
  from assms show ?thesis
    unfolding addToGroups_def Let_def none
    by (auto split: if_splits)
qed

lemma buildGroups_snoc: "buildGroups (ts @ [t]) = addToGroups (buildGroups ts) t"
  by (simp add: buildGroups_def)

lemma buildGroups_invariant:
  "distinct (map fst (buildGroups xs)) \<and>
   set (map fst (buildGroups xs)) = groupKey ` set xs \<and>
   (\<forall>(k, g) \<in> set (buildGroups xs).
      k = typeName (gtype g) @ ''-'' @ gcategory g \<and>
      gtransactions g = filter (\<lambda>t. groupKey t = k) xs \<and>
      total g = sumAmounts (gtransactions g))"
proof (induction xs rule: rev_induct)
  case Nil
  show ?case by (simp add: buildGroups_def)
next
  case (snoc t xs)
  let ?gs = "buildGroups xs"
  from snoc have dist: "distinct (map fst ?gs)"
    and keys: "set (map fst ?gs) = groupKey ` set xs"
    and each: "\<And>k g. (k, g) \<in> set ?gs \<Longrightarrow>
        k = typeName (gtype g) @ ''-'' @ gcategory g \<and>
        gtransactions g = filter (\<lambda>t. groupKey t = k) xs \<and>
        total g = sumAmounts (gtransactions g)"
    by auto
  have "distinct (map fst (addToGroups ?gs t))"
    using dist by (simp add: addToGroups_keys)
  moreover have "set (map fst (addToGroups ?gs t)) = groupKey ` set (xs @ [t])"
    using keys by (auto simp: addToGroups_keys)
  moreover have "k = typeName (gtype g') @ ''-'' @ gcategory g' \<and>
        gtransactions g' = filter (\<lambda>u. groupKey u = k) (xs @ [t]) \<and>
        total g' = sumAmounts (gtransactions g')"
    if mem: "(k, g') \<in> set (addToGroups ?gs t)" for k g'
  proof -
    from addToGroups_member [OF mem]
    consider (other) "k \<noteq> groupKey t" "(k, g') \<in> set ?gs"
      | (old) g where "k = groupKey t" "(k, g) \<in> set ?gs"
          "g' = g\<lparr>total := jsadd (total g) (amount t), gtransactions := gtransactions g @ [t]\<rparr>"
      | (new) "k = groupKey t" "groupKey t \<notin> set (map fst ?gs)"
          "g' = \<lparr>key = k, gcategory = category t, gtype = ttype t, total = Fin 0,
                 gtransactions = []\<rparr>\<lparr>total := jsadd (Fin 0) (amount t),
                 gtransactions := [] @ [t]\<rparr>"
      by auto
    then show ?thesis
    proof cases
      case other
      with each [of k g'] show ?thesis by auto
    next
      case old
      with each [of k g] show ?thesis by (simp add: sumAmounts_snoc)
    next
      case new
      from new(2) keys have "groupKey t \<notin> groupKey ` set xs" by simp
      then have "filter (\<lambda>u. groupKey u = groupKey t) xs = []"
        unfolding filter_empty_conv by (metis imageI)
      with new show ?thesis
        by (simp add: sumAmounts_def groupKey_def)
    qed
  qed
  ultimately show ?case
    unfolding buildGroups_snoc by auto
qed

lemma groupKey_eq:
  "groupKey t = typeName ty @ ''-'' @ c \<longleftrightarrow> ttype t = ty \<and> category t = c"
  by (cases "ttype t"; cases ty) (auto simp: groupKey_def typeName_def)

lemma distinct_map_outer:
  "distinct (map (\<lambda>x. f (h x)) xs) \<Longrightarrow> distinct (map h xs)"
  by (induction xs) auto

lemma sumAmounts_representable: "ts \<noteq> [] \<Longrightarrow> representable (sumAmounts ts)"
  by (cases ts rule: rev_cases) (simp_all add: sumAmounts_snoc jsadd_representable)

lemma numGe_total: "a \<noteq> NaN \<Longrightarrow> b \<noteq> NaN \<Longrightarrow> numGe a b \<or> numGe b a"
  by (cases a; cases b) auto

text \<open>What \<open>Object.values(groups)\<close> holds once the \<open>forEach\<close> is over.\<close>

lemma built_groups:
  fixes xs :: "transaction list"
  defines "gs \<equiv> map snd (buildGroups xs)"
  shows "distinct (map (\<lambda>g. (gtype g, gcategory g)) gs)"
    and "set (map (\<lambda>g. (gtype g, gcategory g)) gs) = set (map (\<lambda>t. (ttype t, category t)) xs)"
    and "\<And>g. g \<in> set gs \<Longrightarrow>
           gtransactions g = filter (\<lambda>t. ttype t = gtype g \<and> category t = gcategory g) xs \<and>
           gtransactions g \<noteq> [] \<and> total g = sumAmounts (gtransactions g)"
proof -
  note inv = buildGroups_invariant [of xs]
  from inv have dist: "distinct (map fst (buildGroups xs))"
    and keys: "set (map fst (buildGroups xs)) = groupKey ` set xs"
    and each: "\<And>k g. (k, g) \<in> set (buildGroups xs) \<Longrightarrow>
        k = typeName (gtype g) @ ''-'' @ gcategory g \<and>
        gtransactions g = filter (\<lambda>t. groupKey t = k) xs \<and>
        total g = sumAmounts (gtransactions g)"
    by auto
  have fst_snd: "map fst (buildGroups xs) = map (\<lambda>g. typeName (gtype g) @ ''-'' @ gcategory g) gs"
    unfolding gs_def using each by (auto simp: map_eq_conv)
  from dist have "distinct (map (\<lambda>g. (\<lambda>p. typeName (fst p) @ ''-'' @ snd p)
      ((\<lambda>g. (gtype g, gcategory g)) g)) gs)"
    unfolding fst_snd by simp
  then show "distinct (map (\<lambda>g. (gtype g, gcategory g)) gs)"
    by (rule distinct_map_outer)
  show "set (map (\<lambda>g. (gtype g, gcategory g)) gs) = set (map (\<lambda>t. (ttype t, category t)) xs)"
  proof (intro set_eqI iffI)
    fix p assume "p \<in> set (map (\<lambda>g. (gtype g, gcategory g)) gs)"
    then obtain g where g: "g \<in> set gs" "p = (gtype g, gcategory g)" by auto
    then have "typeName (gtype g) @ ''-'' @ gcategory g \<in> set (map fst (buildGroups xs))"
      unfolding fst_snd by auto
    with keys obtain t where t: "t \<in> set xs"
      "groupKey t = typeName (gtype g) @ ''-'' @ gcategory g"
      by auto
    from t(2) have "ttype t = gtype g \<and> category t = gcategory g"
      by (simp only: groupKey_eq)
    with g t(1) show "p \<in> set (map (\<lambda>t. (ttype t, category t)) xs)"
      by force
  next
    fix p assume "p \<in> set (map (\<lambda>t. (ttype t, category t)) xs)"
    then obtain t where t: "t \<in> set xs" "p = (ttype t, category t)" by auto
    then have "groupKey t \<in> set (map fst (buildGroups xs))" using keys by auto
    then obtain g where g: "g \<in> set gs"
      "groupKey t = typeName (gtype g) @ ''-'' @ gcategory g"
      unfolding fst_snd by auto
    from g(2) have "ttype t = gtype g \<and> category t = gcategory g"
      by (simp only: groupKey_eq)
    with t g(1) show "p \<in> set (map (\<lambda>g. (gtype g, gcategory g)) gs)"
      by force
  qed
  show "gtransactions g = filter (\<lambda>t. ttype t = gtype g \<and> category t = gcategory g) xs \<and>
        gtransactions g \<noteq> [] \<and> total g = sumAmounts (gtransactions g)"
    if "g \<in> set gs" for g
  proof -
    from that obtain k where kg: "(k, g) \<in> set (buildGroups xs)"
      unfolding gs_def by auto
    from each [OF kg] have k: "k = typeName (gtype g) @ ''-'' @ gcategory g"
      and ts: "gtransactions g = filter (\<lambda>t. groupKey t = k) xs"
      and tot: "total g = sumAmounts (gtransactions g)"
      by simp_all
    from kg have "k \<in> set (map fst (buildGroups xs))" by force
    with keys obtain t where "t \<in> set xs" "groupKey t = k" by auto
    then have "filter (\<lambda>t. groupKey t = k) xs \<noteq> []"
      by (auto simp: filter_empty_conv)
    moreover have "filter (\<lambda>t. groupKey t = k) xs =
        filter (\<lambda>t. ttype t = gtype g \<and> category t = gcategory g) xs"
      unfolding k by (simp only: groupKey_eq)
    ultimately show ?thesis using ts tot by simp
  qed
qed

text \<open>
  Between two groups whose totals are not NaN the comparison function decides by type
  first and by total second.
\<close>

lemma compareGroups_verdict:
  assumes "representable (total a)" "total a \<noteq> NaN" "representable (total b)" "total b \<noteq> NaN"
  shows "\<not> isPositive (compareGroups a b) \<longleftrightarrow>
     (gtype a = Income \<and> gtype b = Expense) \<or>
     (gtype a = gtype b \<and> numGe (total a) (total b))"
proof (cases "gtype a = gtype b")
  case True
  then show ?thesis
    using isPositive_jssub [OF assms(1,3,2,4)] by (auto simp: compareGroups_def)
next
  case False
  then show ?thesis
    by (cases "gtype a"; cases "gtype b") (auto simp: compareGroups_def isPositive_def)
qed

lemma agreesWith_types:
  assumes "agreesWith compareGroups gs"
  shows "sorted_wrt (\<lambda>a b. gtype a = Expense \<longrightarrow> gtype b = Expense) gs"
proof -
  have "gtype a = Expense \<longrightarrow> gtype b = Expense" if "\<not> isPositive (compareGroups a b)"
    for a b :: group
    using that
    by (cases "gtype a"; cases "gtype b") (auto simp: compareGroups_def isPositive_def)
  with assms show ?thesis
    unfolding agreesWith_def by (rule sorted_wrt_mono_rel [rotated]) blast
qed

lemma agreesWith_totals:
  assumes "agreesWith compareGroups gs"
    and "\<And>g. g \<in> set gs \<Longrightarrow> representable (total g) \<and> total g \<noteq> NaN"
  shows "sorted_wrt (\<lambda>a b. gtype a = gtype b \<longrightarrow> numGe (total a) (total b)) gs"
proof -
  have "gtype a = gtype b \<longrightarrow> numGe (total a) (total b)"
    if "a \<in> set gs" "b \<in> set gs" "\<not> isPositive (compareGroups a b)" for a b
    using compareGroups_verdict [of a b] assms(2) [OF that(1)] assms(2) [OF that(2)] that(3)
    by auto
  with assms(1) show ?thesis
    unfolding agreesWith_def by (rule sorted_wrt_mono_rel [rotated]) blast
qed

lemma sortBy_agrees:
  assumes "\<And>g. g \<in> set gs \<Longrightarrow> representable (total g) \<and> total g \<noteq> NaN"
  shows "agreesWith compareGroups (sortBy compareGroups gs)"
  unfolding agreesWith_def
proof (rule sorted_wrt_sortBy_subset [where S = "set gs"])
  let ?R = "\<lambda>a b. (gtype a = Income \<and> gtype b = Expense) \<or>
                   (gtype a = gtype b \<and> numGe (total a) (total b))"
  have verdict: "\<not> isPositive (compareGroups a b) \<longleftrightarrow> ?R a b"
    if "a \<in> set gs" "b \<in> set gs" for a b
    using compareGroups_verdict [of a b] assms [OF that(1)] assms [OF that(2)] by blast
  have total: "?R a b \<or> ?R b a" if "a \<in> set gs" "b \<in> set gs" for a b
    using numGe_total [of "total a" "total b"] assms [OF that(1)] assms [OF that(2)]
    by (cases "gtype a"; cases "gtype b") auto
  have trans: "?R a b \<Longrightarrow> ?R b c \<Longrightarrow> ?R a c" for a b c
    by (cases "gtype a"; cases "gtype b"; cases "gtype c") (auto intro: numGe_trans)
  show "\<not> isPositive (compareGroups b a)"
    if "a \<in> set gs" "b \<in> set gs" "isPositive (compareGroups a b)" for a b
    using verdict [OF that(1,2)] verdict [OF that(2,1)] total [OF that(1,2)] that(3) by blast
  show "\<not> isPositive (compareGroups a b)"
    if "a \<in> set gs" "b \<in> set gs" "\<not> isPositive (compareGroups a b)" for a b
    using that(3) .
  show "\<not> isPositive (compareGroups a c)"
    if "a \<in> set gs" "b \<in> set gs" "c \<in> set gs"
      "\<not> isPositive (compareGroups a b)" "\<not> isPositive (compareGroups b c)" for a b c
    using verdict [OF that(1,2)] verdict [OF that(2,3)] verdict [OF that(1,3)] that(4,5)
      trans [of a b c] by blast
qed simp

text \<open>
  The grouped view, whatever sort the engine has, as long as it returns the elements
  it was given: one group for each (type, category) pair that occurs in the filtered
  set and no other group; a group holds the filtered transactions of its pair, in
  their order, and its total is their amounts added up from 0. When the order of the
  view is one the comparison function agrees with, no Expense group comes before an
  Income group, and, when no total is NaN, the totals of the groups of one type
  descend along the view.
\<close>

lemma grouped_view:
  fixes st :: app_state and srt :: sorter
  defines "xs \<equiv> getFilteredTransactions st" and "gs \<equiv> getGroupedTransactions srt st"
  assumes "permutes srt"
  shows "distinct (map (\<lambda>g. (gtype g, gcategory g)) gs)"
    and "set (map (\<lambda>g. (gtype g, gcategory g)) gs) = set (map (\<lambda>t. (ttype t, category t)) xs)"
    and "\<And>g. g \<in> set gs \<Longrightarrow>
           gtransactions g = filter (\<lambda>t. ttype t = gtype g \<and> category t = gcategory g) xs \<and>
           gtransactions g \<noteq> [] \<and> total g = sumAmounts (gtransactions g)"
    and "agreesWith compareGroups gs \<Longrightarrow>
           sorted_wrt (\<lambda>a b. gtype a = Expense \<longrightarrow> gtype b = Expense) gs"
    and "agreesWith compareGroups gs \<Longrightarrow> (\<And>g. g \<in> set gs \<Longrightarrow> total g \<noteq> NaN) \<Longrightarrow>
           sorted_wrt (\<lambda>a b. gtype a = gtype b \<longrightarrow> numGe (total a) (total b)) gs"
proof -
  let ?gs0 = "map snd (buildGroups xs)"
  let ?pair = "\<lambda>g :: group. (gtype g, gcategory g)"
  have gs: "gs = srt compareGroups ?gs0"
    by (simp add: gs_def xs_def getGroupedTransactions_def)
  have mset_gs: "mset gs = mset ?gs0"
    using assms(3) by (simp add: gs permutes_def)
  have set_gs: "set gs = set ?gs0"
    using assms(3) by (simp add: gs permutes_set)
  have "image_mset ?pair (mset gs) = image_mset ?pair (mset ?gs0)"
    using mset_gs by (rule arg_cong)
  then have "mset (map ?pair gs) = mset (map ?pair ?gs0)"
    by (simp only: mset_map)
  then have "distinct (map ?pair gs) \<longleftrightarrow> distinct (map ?pair ?gs0)"
    by (rule mset_eq_imp_distinct_iff)
  then show "distinct (map ?pair gs)"
    using built_groups(1) [of xs] by simp
  have "set (map ?pair gs) = set (map ?pair ?gs0)"
    by (simp only: set_map set_gs)
  also have "\<dots> = set (map (\<lambda>t. (ttype t, category t)) xs)"
    by (rule built_groups(2))
  finally show "set (map ?pair gs) = set (map (\<lambda>t. (ttype t, category t)) xs)" .
  show each: "gtransactions g = filter (\<lambda>t. ttype t = gtype g \<and> category t = gcategory g) xs \<and>
        gtransactions g \<noteq> [] \<and> total g = sumAmounts (gtransactions g)"
    if "g \<in> set gs" for g
    using that built_groups(3) [of g xs] unfolding set_gs by blast
  show "sorted_wrt (\<lambda>a b. gtype a = Expense \<longrightarrow> gtype b = Expense) gs"
    if "agreesWith compareGroups gs"
    using that by (rule agreesWith_types)
  show "sorted_wrt (\<lambda>a b. gtype a = gtype b \<longrightarrow> numGe (total a) (total b)) gs"
    if "agreesWith compareGroups gs" and "\<And>g. g \<in> set gs \<Longrightarrow> total g \<noteq> NaN"
    using that(1)
  proof (rule agreesWith_totals)
    fix g assume g: "g \<in> set gs"
    with each have "representable (total g)"
      by (metis sumAmounts_representable)
    with that(2) [OF g] show "representable (total g) \<and> total g \<noteq> NaN" by simp
  qed
qed

section \<open>Facts about sums that do not round\<close>

lemma exactAdd_Fin:
  "exactAdd (Fin p) v \<longleftrightarrow> (\<exists>q. v = Fin q \<and> jsadd (Fin p) v = Fin (p + q))"
  by (cases v) (simp_all add: exactAdd_def)

lemma exactSum_foldl:
  "exactSum (Fin a) vs \<Longrightarrow> foldl jsadd (Fin a) vs = Fin (a + sum_list (map valueOf vs))"
proof (induction vs arbitrary: a)
  case Nil
  show ?case by simp
next
  case (Cons v vs)
  from Cons.prems obtain q where v: "v = Fin q" and sum: "jsadd (Fin a) v = Fin (a + q)"
    by (auto simp: exactAdd_Fin)
  from Cons.prems have "exactSum (Fin (a + q)) vs"
    by (simp add: sum)
  from Cons.IH [OF this] show ?case
    by (simp add: sum) (simp add: v valueOf_def)
qed

lemma sumAmounts_foldl: "sumAmounts ts = foldl jsadd (Fin 0) (map amount ts)"
  by (simp add: sumAmounts_def foldl_map)

lemma sumGroupTotals_foldl: "sumGroupTotals gs = foldl jsadd (Fin 0) (map total gs)"
  by (simp add: sumGroupTotals_def foldl_map)

lemma sumAmounts_exact:
  assumes "exactSum (Fin 0) (map amount ts)"
  shows "sumAmounts ts = Fin (sum_list (map (\<lambda>t. valueOf (amount t)) ts))"
  using exactSum_foldl [OF assms] by (simp add: sumAmounts_foldl comp_def)

lemma sum_list_delta:
  "distinct ks \<Longrightarrow>
     (\<Sum>k\<leftarrow>ks. if a = k then (c :: rat) else 0) = (if a \<in> set ks then c else 0)"
  by (induction ks) auto

lemma partition_sum:
  assumes "distinct ks" "f ` set xs \<subseteq> set ks"
  shows "(\<Sum>k\<leftarrow>ks. \<Sum>x\<leftarrow>filter (\<lambda>x. f x = k) xs. h x) = (\<Sum>x\<leftarrow>xs. (h x :: rat))"
  using assms(2)
proof (induction xs)
  case Nil
  show ?case by simp
next
  case (Cons x xs)
  have "(\<Sum>k\<leftarrow>ks. \<Sum>y\<leftarrow>filter (\<lambda>y. f y = k) (x # xs). h y) =
      (\<Sum>k\<leftarrow>ks. (if f x = k then h x else 0) + (\<Sum>y\<leftarrow>filter (\<lambda>y. f y = k) xs. h y))"
    by (rule arg_cong [where f = sum_list]) (rule map_cong, simp_all)
  also have "\<dots> = (\<Sum>k\<leftarrow>ks. if f x = k then h x else 0) +
      (\<Sum>k\<leftarrow>ks. \<Sum>y\<leftarrow>filter (\<lambda>y. f y = k) xs. h y)"
    by (simp add: sum_list_addf)
  also have "(\<Sum>k\<leftarrow>ks. if f x = k then h x else 0) = h x"
    using Cons.prems assms(1) by (simp add: sum_list_delta)
  also have "(\<Sum>k\<leftarrow>ks. \<Sum>y\<leftarrow>filter (\<lambda>y. f y = k) xs. h y) = (\<Sum>y\<leftarrow>xs. h y)"
    using Cons.prems by (intro Cons.IH) simp
  finally show ?case by simp
qed

lemma sum_list_by_type:
  "(\<Sum>t\<leftarrow>filter (\<lambda>t. ttype t = Income) xs. (h t :: rat)) +
   (\<Sum>t\<leftarrow>filter (\<lambda>t. ttype t = Expense) xs. h t) = (\<Sum>t\<leftarrow>xs. h t)"
proof (induction xs)
  case Nil
  show ?case by simp
next
  case (Cons x xs)
  then show ?case by (cases "ttype x") simp_all
qed

text \<open>
  C6, as the code has it. When no addition behind the two sides rounds (those that
  make the group totals, those that add the group totals up in the order of the view,
  those that make the income and the expense total, and income plus expense), the
  group totals of the grouped view add up to income plus expense: both are the sum of
  the amounts. This holds whatever sort the engine has, as long as it returns the
  elements it was given.
\<close>

theorem group_totals_add_up:
  assumes "permutes srt" "noRounding srt st"
  shows "sumGroupTotals (getGroupedTransactions srt st) = incomePlusExpense (getTotals st) \<and>
     incomePlusExpense (getTotals st) =
       Fin (sum_list (map (\<lambda>t. valueOf (amount t)) (getFilteredTransactions st)))"
proof -
  define xs where "xs = getFilteredTransactions st"
  define gs0 where "gs0 = map snd (buildGroups xs)"
  define gs where "gs = getGroupedTransactions srt st"
  define pair where "pair = (\<lambda>g :: group. (gtype g, gcategory g))"
  define part where "part = (\<lambda>k. filter (\<lambda>t. (ttype t, category t) = k) xs)"
  let ?val = "\<lambda>t. valueOf (amount t)"
  let ?inc = "filter (\<lambda>t. ttype t = Income) xs" and ?exp = "filter (\<lambda>t. ttype t = Expense) xs"
  from assms(2) have each: "\<And>g. g \<in> set gs \<Longrightarrow> exactSum (Fin 0) (map amount (gtransactions g))"
    and view: "exactSum (Fin 0) (map total gs)"
    and inc: "exactSum (Fin 0) (map amount ?inc)"
    and exp: "exactSum (Fin 0) (map amount ?exp)"
    and both: "exactAdd (income (getTotals st)) (expense (getTotals st))"
    by (simp_all add: noRounding_def list_all_iff gs_def xs_def)
  have gs: "gs = srt compareGroups gs0"
    by (simp add: gs_def getGroupedTransactions_def gs0_def xs_def)
  have set_gs: "set gs = set gs0"
    using assms(1) by (simp add: gs permutes_set)
  have dist: "distinct (map pair gs0)"
    unfolding pair_def gs0_def by (rule built_groups(1))
  have cover: "(\<lambda>t. (ttype t, category t)) ` set xs \<subseteq> set (map pair gs0)"
    using built_groups(2) [of xs] by (simp add: pair_def gs0_def)
  have val_g: "valueOf (total g) = sum_list (map ?val (part (pair g)))" if "g \<in> set gs0" for g
  proof -
    from built_groups(3) [of g xs] that
    have ts: "gtransactions g = part (pair g)" and tot: "total g = sumAmounts (gtransactions g)"
      by (simp_all add: gs0_def part_def pair_def)
    from that have "exactSum (Fin 0) (map amount (gtransactions g))"
      by (simp add: each set_gs)
    then have "total g = Fin (sum_list (map ?val (gtransactions g)))"
      unfolding tot by (rule sumAmounts_exact)
    then show ?thesis by (simp add: ts valueOf_def)
  qed
  have sum_val: "sum_list (map (\<lambda>g. valueOf (total g)) gs0) = sum_list (map ?val xs)"
  proof -
    have "sum_list (map (\<lambda>g. valueOf (total g)) gs0) =
        sum_list (map (\<lambda>g. sum_list (map ?val (part (pair g)))) gs0)"
      by (rule arg_cong [where f = sum_list]) (simp add: val_g)
    also have "\<dots> = (\<Sum>k\<leftarrow>map pair gs0. sum_list (map ?val (part k)))"
      by (simp add: comp_def)
    also have "\<dots> = sum_list (map ?val xs)"
      unfolding part_def using dist cover by (rule partition_sum)
    finally show ?thesis .
  qed
  have left: "sumGroupTotals gs = Fin (sum_list (map ?val xs))"
  proof -
    have "sumGroupTotals gs = Fin (0 + sum_list (map valueOf (map total gs)))"
      unfolding sumGroupTotals_foldl using view by (rule exactSum_foldl)
    also have "sum_list (map valueOf (map total gs)) =
        sum_list (map (\<lambda>g. valueOf (total g)) gs0)"
      unfolding gs using assms(1) by (simp add: comp_def permutes_sum_list)
    finally show ?thesis by (simp add: sum_val)
  qed
  have right: "incomePlusExpense (getTotals st) = Fin (sum_list (map ?val xs))"
  proof -
    have i: "income (getTotals st) = Fin (sum_list (map ?val ?inc))"
      using sumAmounts_exact [OF inc] by (simp add: getTotals_def Let_def xs_def)
    have e: "expense (getTotals st) = Fin (sum_list (map ?val ?exp))"
      using sumAmounts_exact [OF exp] by (simp add: getTotals_def Let_def xs_def)
    from both have "jsadd (income (getTotals st)) (expense (getTotals st)) =
        Fin (sum_list (map ?val ?inc) + sum_list (map ?val ?exp))"
      unfolding i e by (simp add: exactAdd_def)
    also have "sum_list (map ?val ?inc) + sum_list (map ?val ?exp) = sum_list (map ?val xs)"
      by (rule sum_list_by_type)
    finally show ?thesis by (simp add: incomePlusExpense_def)
  qed
  from left right show ?thesis by (simp add: xs_def gs_def)
qed

section \<open>The month view on example ledgers\<close>

lemma roundDouble_numeral:
  "numeral k \<le> (2 :: int) ^ 53 \<Longrightarrow> roundDouble (numeral k) = Fin (numeral k)"
  using roundDouble_int [of "numeral k"] by simp

lemma roundDouble_neg_numeral:
  "numeral k \<le> (2 :: int) ^ 53 \<Longrightarrow> roundDouble (- numeral k) = Fin (- numeral k)"
  using roundDouble_int [of "- numeral k"] by simp

lemma roundDouble_zero: "roundDouble 0 = Fin 0"
  by (simp add: roundDouble_def)

lemma roundDouble_one: "roundDouble 1 = Fin 1"
  using roundDouble_int [of 1] by simp

lemmas whole_eval = roundDouble_numeral roundDouble_neg_numeral roundDouble_zero roundDouble_one

lemmas view_eval =
  getGroupedTransactions_def getFilteredTransactions_def getTotals_def isSameMonth_def
  buildGroups_def addToGroups_def groupKey_def typeName_def sortBy_def compareGroups_def
  sumAmounts_def sumGroupTotals_def incomePlusExpense_def jssub_def isPositive_def Let_def

lemma demo_view:
  "map (\<lambda>g. (gtype g, gcategory g, total g)) (getGroupedTransactions sortBy demo) =
     [(Income, ''Salary'', Fin 1000), (Income, ''Food'', Fin 5), (Expense, ''Food'', Fin 62)]"
  by (simp add: view_eval demo_def entry_def whole_eval)

text \<open>
  The view of the example state, through the insertion sort: Income before Expense,
  and the totals of each type descending.
\<close>

lemma demo_view_ordered:
  "sorted_wrt (\<lambda>a b. gtype a = Expense \<longrightarrow> gtype b = Expense)
     (getGroupedTransactions sortBy demo) \<and>
   sorted_wrt (\<lambda>a b. gtype a = gtype b \<longrightarrow> numGe (total a) (total b))
     (getGroupedTransactions sortBy demo)"
proof -
  let ?built = "map snd (buildGroups (getFilteredTransactions demo))"
  let ?gs = "getGroupedTransactions sortBy demo"
  have "map total ?gs =
      map (\<lambda>p. snd (snd p)) (map (\<lambda>g. (gtype g, gcategory g, total g)) ?gs)"
    by (simp add: comp_def)
  also have "\<dots> = [Fin 1000, Fin 5, Fin 62]"
    unfolding demo_view by simp
  finally have "set (map total ?gs) = {Fin 1000, Fin 5, Fin 62}"
    by simp
  then have "NaN \<notin> total ` set ?gs"
    by simp
  then have no_nan: "total g \<noteq> NaN" if "g \<in> set ?gs" for g
    using that by (metis imageI)
  have each: "representable (total g) \<and> total g \<noteq> NaN" if "g \<in> set ?built" for g
  proof -
    from that have g: "g \<in> set ?gs"
      unfolding getGroupedTransactions_def set_sortBy .
    with grouped_view(3) [OF permutes_sortBy, of g demo] have "representable (total g)"
      by (metis sumAmounts_representable)
    with no_nan [OF g] show ?thesis by simp
  qed
  have "agreesWith compareGroups (sortBy compareGroups ?built)"
  proof (rule sortBy_agrees)
    fix g assume "g \<in> set ?built"
    then show "representable (total g) \<and> total g \<noteq> NaN" by (rule each)
  qed
  then have "agreesWith compareGroups ?gs"
    by (simp only: getGroupedTransactions_def)
  with grouped_view(4,5) [OF permutes_sortBy, of demo] no_nan show ?thesis
    by blast
qed

lemma parseFloat_tenths:
  "parseFloat ''0.1'' = Fin (3602879701896397 / 36028797018963968)"
  "parseFloat ''0.2'' = Fin (3602879701896397 / 18014398509481984)"
  "parseFloat ''0.3'' = Fin (5404319552844595 / 18014398509481984)"
  "parseFloat ''0.6'' = Fin (5404319552844595 / 9007199254740992)"
proof -
  have "parseFloat ''0.1'' = roundDouble (1 / 10)" "parseFloat ''0.2'' = roundDouble (1 / 5)"
    "parseFloat ''0.3'' = roundDouble (3 / 10)" "parseFloat ''0.6'' = roundDouble (3 / 5)"
    by (simp_all add: parse_eval)
  then show "parseFloat ''0.1'' = Fin (3602879701896397 / 36028797018963968)"
    "parseFloat ''0.2'' = Fin (3602879701896397 / 18014398509481984)"
    "parseFloat ''0.3'' = Fin (5404319552844595 / 18014398509481984)"
    "parseFloat ''0.6'' = Fin (5404319552844595 / 9007199254740992)"
    by (simp_all add: number_eval)
qed

lemma parseFloat_next_after_six_tenths:
  "parseFloat ''0.6000000000000001'' = Fin (1351079888211149 / 2251799813685248)"
proof -
  have "parseFloat ''0.6000000000000001'' = roundDouble (6000000000000001 / 10000000000000000)"
    by (simp add: parse_eval)
  then show ?thesis by (simp add: number_eval)
qed

lemma parseFloat_dot: "parseFloat ''.'' = NaN"
  by (simp add: parse_eval)

lemma parseFloat_quarter: "parseFloat ''0.25'' = Fin (1 / 4)"
proof -
  have "parseFloat ''0.25'' = roundDouble (1 / 4)"
    by (simp add: parse_eval)
  also have "\<dots> = Fin (1 / 4)"
    by (simp add: number_eval)
  finally show ?thesis .
qed

lemma tenths_view:
  "map (\<lambda>g. (gcategory g, total g))
     (getGroupedTransactions sortBy (ledgerOf
        [typed ''3'' Expense ''0.1'' ''Food'', typed ''2'' Expense ''0.2'' ''Bills'',
         typed ''1'' Expense ''0.3'' ''Bills''])) =
     [(''Bills'', Fin (1 / 2)), (''Food'', Fin (3602879701896397 / 36028797018963968))]"
  by (simp add: view_eval ledgerOf_def typed_def demo_def entry_def parseFloat_tenths number_eval)

text \<open>
  C7, where the code departs from it. The ledger \<open>nanLedger\<close> has three Expense
  entries of the reference month, in the categories Food, Bills and Transport; the
  amount of the Bills entry was typed as a single dot, which \<open>parseFloat\<close> reads as NaN
  and the add accepts. The view has the three groups, with the totals 1, NaN and 2,
  and \<open>b.total - a.total\<close> is NaN whenever one of the two groups is Bills: the
  comparison function is not consistent, and the order of the view is the engine's
  choice. Whatever sort the engine has, as long as it returns the elements it was
  given, the totals of the three Expense groups do not descend along the view.
\<close>

theorem nan_total_not_descending:
  assumes "permutes srt"
  shows "mset (map (\<lambda>g. (gtype g, gcategory g, total g))
            (getGroupedTransactions srt nanLedger)) =
           mset [(Expense, ''Food'', Fin 1), (Expense, ''Bills'', NaN),
                 (Expense, ''Transport'', Fin 2)] \<and>
     \<not> sorted_wrt (\<lambda>a b. gtype a = gtype b \<longrightarrow> numGe (total a) (total b))
          (getGroupedTransactions srt nanLedger)"
proof -
  define gs0 where "gs0 = map snd (buildGroups (getFilteredTransactions nanLedger))"
  define gs where "gs = getGroupedTransactions srt nanLedger"
  let ?f = "\<lambda>g :: group. (gtype g, gcategory g, total g)"
  let ?R = "\<lambda>p q :: txn_type \<times> string \<times> jsnum.
     fst p = fst q \<longrightarrow> numGe (snd (snd p)) (snd (snd q))"
  have built: "map ?f gs0 =
      [(Expense, ''Food'', Fin 1), (Expense, ''Bills'', NaN), (Expense, ''Transport'', Fin 2)]"
    unfolding gs0_def
    by (simp add: view_eval nanLedger_def ledgerOf_def typed_def demo_def entry_def
        parseFloat_dot whole_eval)
  have "mset gs = mset gs0"
    using assms by (simp add: gs_def gs0_def getGroupedTransactions_def permutes_def)
  then have "image_mset ?f (mset gs) = image_mset ?f (mset gs0)"
    by (rule arg_cong)
  then have same: "mset (map ?f gs) = mset (map ?f gs0)"
    by (simp only: mset_map)
  have "\<not> sorted_wrt (\<lambda>a b. gtype a = gtype b \<longrightarrow> numGe (total a) (total b)) gs"
  proof
    assume "sorted_wrt (\<lambda>a b. gtype a = gtype b \<longrightarrow> numGe (total a) (total b)) gs"
    then have sorted: "sorted_wrt ?R (map ?f gs)"
      by (simp add: sorted_wrt_map)
    from same have "set (map ?f gs) = set (map ?f gs0)"
      by (rule mset_eq_setD)
    then have "(Expense, ''Food'', Fin 1) \<in> set (map ?f gs)"
      and "(Expense, ''Bills'', NaN) \<in> set (map ?f gs)"
      unfolding built by simp_all
    with sorted have "?R (Expense, ''Food'', Fin 1) (Expense, ''Bills'', NaN) \<or>
        ?R (Expense, ''Bills'', NaN) (Expense, ''Food'', Fin 1)"
      by (rule sorted_wrt_two) simp
    then show False by simp
  qed
  with same built show ?thesis
    by (simp only: gs_def) simp
qed

text \<open>
  Through the insertion sort the view stays in the order the groups were created in:
  every comparison with the Bills group is NaN, which moves nothing, and the total 1
  stands ahead of the total 2.
\<close>

theorem nan_total_not_descending_witness:
  "permutes sortBy \<and>
   map (\<lambda>g. (gtype g, gcategory g, total g)) (getGroupedTransactions sortBy nanLedger) =
     [(Expense, ''Food'', Fin 1), (Expense, ''Bills'', NaN), (Expense, ''Transport'', Fin 2)] \<and>
   \<not> numGe (Fin 1) (Fin 2) \<and>
   \<not> sorted_wrt (\<lambda>a b. gtype a = gtype b \<longrightarrow> numGe (total a) (total b))
        (getGroupedTransactions sortBy nanLedger)"
proof -
  have "map (\<lambda>g. (gtype g, gcategory g, total g)) (getGroupedTransactions sortBy nanLedger) =
     [(Expense, ''Food'', Fin 1), (Expense, ''Bills'', NaN), (Expense, ''Transport'', Fin 2)]"
    by (simp add: view_eval nanLedger_def ledgerOf_def typed_def demo_def entry_def
        parseFloat_dot whole_eval)
  with nan_total_not_descending [OF permutes_sortBy] permutes_sortBy show ?thesis
    by simp
qed

text \<open>
  The ledger \<open>centsLedger\<close> (12.50 and 0.25 for Food, 1000 of salary) and a ledger
  with the one entry 12.50: no addition rounds, and the two sides agree.
\<close>

lemma cents_view:
  "map (\<lambda>g. (gtype g, gcategory g, total g, map amount (gtransactions g)))
     (getGroupedTransactions sortBy centsLedger) =
     [(Income, ''Salary'', Fin 1000, [Fin 1000]),
      (Expense, ''Food'', Fin (51 / 4), [Fin (25 / 2), Fin (1 / 4)])]"
  by (simp add: view_eval centsLedger_def ledgerOf_def typed_def demo_def entry_def
      parseFloat_12_50 parseFloat_quarter number_eval)

theorem group_totals_add_up_witness:
  "permutes sortBy \<and> noRounding sortBy centsLedger \<and>
   sumGroupTotals (getGroupedTransactions sortBy centsLedger) = Fin (4051 / 4) \<and>
   incomePlusExpense (getTotals centsLedger) = Fin (4051 / 4) \<and>
   noRounding sortBy (ledgerOf [typed ''1'' Expense ''12.50'' ''Food'']) \<and>
   sumGroupTotals (getGroupedTransactions sortBy
      (ledgerOf [typed ''1'' Expense ''12.50'' ''Food''])) = Fin (25 / 2) \<and>
   incomePlusExpense (getTotals (ledgerOf [typed ''1'' Expense ''12.50'' ''Food''])) =
     Fin (25 / 2)"
proof -
  let ?one = "ledgerOf [typed ''1'' Expense ''12.50'' ''Food'']"
  have cents: "noRounding sortBy centsLedger"
    by (simp add: noRounding_def exactAdd_def view_eval centsLedger_def ledgerOf_def
        typed_def demo_def entry_def parseFloat_12_50 parseFloat_quarter number_eval)
  have one: "noRounding sortBy ?one"
    by (simp add: noRounding_def exactAdd_def view_eval ledgerOf_def
        typed_def demo_def entry_def parseFloat_12_50 number_eval)
  have "sum_list (map (\<lambda>t. valueOf (amount t)) (getFilteredTransactions centsLedger)) = 4051 / 4"
    by (simp add: getFilteredTransactions_def isSameMonth_def centsLedger_def ledgerOf_def
        typed_def demo_def entry_def parseFloat_12_50 parseFloat_quarter valueOf_def)
  moreover have "sum_list (map (\<lambda>t. valueOf (amount t)) (getFilteredTransactions ?one)) = 25 / 2"
    by (simp add: getFilteredTransactions_def isSameMonth_def ledgerOf_def
        typed_def demo_def entry_def parseFloat_12_50 valueOf_def)
  ultimately show ?thesis
    using group_totals_add_up [OF permutes_sortBy cents]
      group_totals_add_up [OF permutes_sortBy one] permutes_sortBy cents one
    by simp
qed

text \<open>
  The amounts 0.1 (Food), 0.2 and 0.3 (Bills): the group totals 0.5 and 0.1 add up to
  0.6, in the order of the view and in the other order too, and income plus expense
  is 0.6000000000000001. And the amounts \<open>10^16\<close> (Bills), 1 and 1 (Food): the group
  totals add up to \<open>10^16 + 2\<close>, income plus expense is \<open>10^16\<close>.
\<close>

theorem group_totals_differ:
  "sumGroupTotals (getGroupedTransactions sortBy (ledgerOf
      [typed ''3'' Expense ''0.1'' ''Food'', typed ''2'' Expense ''0.2'' ''Bills'',
       typed ''1'' Expense ''0.3'' ''Bills''])) = parseFloat ''0.6'' \<and>
   sumGroupTotals (rev (getGroupedTransactions sortBy (ledgerOf
      [typed ''3'' Expense ''0.1'' ''Food'', typed ''2'' Expense ''0.2'' ''Bills'',
       typed ''1'' Expense ''0.3'' ''Bills'']))) = parseFloat ''0.6'' \<and>
   incomePlusExpense (getTotals (ledgerOf
      [typed ''3'' Expense ''0.1'' ''Food'', typed ''2'' Expense ''0.2'' ''Bills'',
       typed ''1'' Expense ''0.3'' ''Bills''])) = parseFloat ''0.6000000000000001'' \<and>
   parseFloat ''0.6'' \<noteq> parseFloat ''0.6000000000000001'' \<and>
   sumGroupTotals (getGroupedTransactions sortBy (ledgerOf
      [entry ''3'' Expense 10000000000000000 ''Bills'', entry ''2'' Expense 1 ''Food'',
       entry ''1'' Expense 1 ''Food''])) = Fin 10000000000000002 \<and>
   incomePlusExpense (getTotals (ledgerOf
      [entry ''3'' Expense 10000000000000000 ''Bills'', entry ''2'' Expense 1 ''Food'',
       entry ''1'' Expense 1 ''Food''])) = Fin 10000000000000000"
proof -
  have "sumGroupTotals (getGroupedTransactions sortBy (ledgerOf
      [typed ''3'' Expense ''0.1'' ''Food'', typed ''2'' Expense ''0.2'' ''Bills'',
       typed ''1'' Expense ''0.3'' ''Bills''])) = Fin (5404319552844595 / 9007199254740992)"
    by (simp add: view_eval ledgerOf_def typed_def demo_def entry_def parseFloat_tenths
        number_eval)
  moreover have "sumGroupTotals (rev (getGroupedTransactions sortBy (ledgerOf
      [typed ''3'' Expense ''0.1'' ''Food'', typed ''2'' Expense ''0.2'' ''Bills'',
       typed ''1'' Expense ''0.3'' ''Bills'']))) = Fin (5404319552844595 / 9007199254740992)"
    by (simp add: view_eval ledgerOf_def typed_def demo_def entry_def parseFloat_tenths
        number_eval)
  moreover have "incomePlusExpense (getTotals (ledgerOf
      [typed ''3'' Expense ''0.1'' ''Food'', typed ''2'' Expense ''0.2'' ''Bills'',
       typed ''1'' Expense ''0.3'' ''Bills''])) = Fin (1351079888211149 / 2251799813685248)"
    by (simp add: view_eval ledgerOf_def typed_def demo_def entry_def parseFloat_tenths
        number_eval)
  moreover have "sumGroupTotals (getGroupedTransactions sortBy (ledgerOf
      [entry ''3'' Expense 10000000000000000 ''Bills'', entry ''2'' Expense 1 ''Food'',
       entry ''1'' Expense 1 ''Food''])) = Fin 10000000000000002"
    by (simp add: view_eval ledgerOf_def demo_def entry_def number_eval)
  moreover have "incomePlusExpense (getTotals (ledgerOf
      [entry ''3'' Expense 10000000000000000 ''Bills'', entry ''2'' Expense 1 ''Food'',
       entry ''1'' Expense 1 ''Food''])) = Fin 10000000000000000"
    by (simp add: view_eval ledgerOf_def demo_def entry_def number_eval)
  ultimately show ?thesis
    by (simp add: parseFloat_tenths parseFloat_next_after_six_tenths)
qed

end
